(* ===== verification/Prelude.thy ===== *)
theory Prelude
  imports Main "HOL-Library.Word" "HOL-Library.Signed_Division" "HOL-Library.Code_Target_Numeral"
begin

text \<open>
  Shared vocabulary of the development: the machine types of Go as the
  program uses them (\<open>int64\<close> as a 64-bit word read with \<open>sint\<close>, Go strings
  and byte slices as HOL strings, whose \<open>char\<close>s are bytes), Go's truncating
  integer division, the error and panic outcomes of Go code, and generic list
  lemmas (last-write-wins scans) used by the component theories.
\<close>

type_synonym int64 = "64 word"
type_synonym bytes = string

named_theorems model_simps \<open>evaluation rules of the model, for witnesses\<close>

subsection \<open>Go errors and panics\<close>

text \<open>
  A Go function returning \<open>(T, error)\<close> is modelled with the result type
  \<open>go_error + T\<close>. \<open>GoErr msg\<close> is a non-nil \<open>error\<close> whose \<open>Error()\<close> is
  \<open>msg\<close>; \<open>GoPanic msg\<close> is a run-time panic (index out of range), which
  unwinds through every caller.
\<close>

datatype go_error = GoErr string | GoPanic string

fun is_panic :: "go_error \<Rightarrow> bool" where
  "is_panic (GoErr _) = False"
| "is_panic (GoPanic _) = True"

fun error_text :: "go_error \<Rightarrow> string" where
  "error_text (GoErr m) = m"
| "error_text (GoPanic m) = m"

subsection \<open>Go integer division\<close>

text \<open>
  Go's \<open>/\<close> and \<open>%\<close> on signed integers truncate towards zero: they are
  \<open>sdiv\<close> and \<open>smod\<close> of HOL-Library.Signed_Division, not HOL's \<open>div\<close> and
  \<open>mod\<close>, which round towards minus infinity.
\<close>

definition go_div :: "int \<Rightarrow> int \<Rightarrow> int" where
  "go_div a b = a sdiv b"

definition go_mod :: "int \<Rightarrow> int \<Rightarrow> int" where
  "go_mod a b = a smod b"

definition int64_range :: "int \<Rightarrow> bool" where
  "int64_range x \<longleftrightarrow> - (2 ^ 63) \<le> x \<and> x < 2 ^ 63"

lemma go_div_mod_eq: "go_div a b * b + go_mod a b = a"
  unfolding go_div_def go_mod_def by (rule sdiv_mult_smod_eq)

lemma go_div_pos [simp]: "0 \<le> a \<Longrightarrow> 0 < b \<Longrightarrow> go_div a b = a div b"
  by (simp add: go_div_def signed_divide_int_def sgn_if)

lemma go_mod_pos [simp]: "0 \<le> a \<Longrightarrow> 0 < b \<Longrightarrow> go_mod a b = a mod b"
  by (simp add: go_mod_def signed_modulo_int_def sgn_if)

lemma go_div_neg: "a < 0 \<Longrightarrow> 0 < b \<Longrightarrow> go_div a b = - ((- a) div b)"
  by (simp add: go_div_def signed_divide_int_def sgn_if)

lemma go_mod_neg: "a < 0 \<Longrightarrow> 0 < b \<Longrightarrow> go_mod a b = - ((- a) mod b)"
  by (simp add: go_mod_def signed_modulo_int_def sgn_if)

lemma go_mod_bound:
  assumes b: "0 < b"
  shows "- b < go_mod a b \<and> go_mod a b < b"
proof (cases "a < 0")
  case True
  from b have "0 \<le> (- a) mod b" "(- a) mod b < b" by simp_all
  with True b show ?thesis by (simp add: go_mod_neg)
next
  case False
  from b have "0 \<le> a mod b" "a mod b < b" by simp_all
  with False b show ?thesis by simp
qed

lemma go_mod_sign:
  assumes b: "0 < b"
  shows "(go_mod a b < 0 \<longrightarrow> a < 0) \<and> (0 < go_mod a b \<longrightarrow> 0 < a)"
proof (cases "a < 0")
  case True
  from b have "0 \<le> (- a) mod b" by simp
  with True b show ?thesis unfolding go_mod_neg [OF True b] by arith
next
  case False
  then have m: "go_mod a b = a mod b" using b by simp
  from b have "0 \<le> a mod b" by simp
  moreover have "a = 0 \<Longrightarrow> a mod b = 0" by simp
  ultimately show ?thesis using False unfolding m by (cases "a = 0") auto
qed

lemma sint_int64_range [simp]: "int64_range (sint (w :: int64))"
  unfolding int64_range_def
  using sint_ge [of w] sint_lt [of w] by simp

subsection \<open>Last-write-wins scans\<close>

text \<open>
  A Go loop that overwrites a variable whenever an element matches keeps the
  value of the last matching element. \<open>last_where\<close> is that reference value.
\<close>

definition last_where :: "('a \<Rightarrow> bool) \<Rightarrow> ('a \<Rightarrow> 'b) \<Rightarrow> 'b \<Rightarrow> 'a list \<Rightarrow> 'b" where
  "last_where P f d xs = (case filter P (rev xs) of [] \<Rightarrow> d | y # _ \<Rightarrow> f y)"

lemma last_where_Nil [simp]: "last_where P f d [] = d"
  by (simp add: last_where_def)

lemma last_where_snoc [simp]:
  "last_where P f d (xs @ [x]) = (if P x then f x else last_where P f d xs)"
  by (simp add: last_where_def)

lemma fold_overwrite_last_where:
  "fold (\<lambda>x acc. if P x then f x else acc) xs d = last_where P f d xs"
  by (induction xs rule: rev_induct) simp_all

lemma last_where_in_set:
  "\<exists>x\<in>set xs. P x \<Longrightarrow> \<exists>x\<in>set xs. P x \<and> last_where P f d xs = f x"
  by (induction xs rule: rev_induct) auto

lemma last_where_no_match: "\<forall>x\<in>set xs. \<not> P x \<Longrightarrow> last_where P f d xs = d"
  by (induction xs rule: rev_induct) auto

subsection \<open>Loops that stop at the first error\<close>

text \<open>
  A Go \<open>for range\<close> loop that appends \<open>f x\<close> for every element and returns
  (or panics) as soon as one element fails.
\<close>

fun map_or_fail :: "('a \<Rightarrow> 'e + 'b) \<Rightarrow> 'a list \<Rightarrow> 'e + 'b list" where
  "map_or_fail f [] = Inr []"
| "map_or_fail f (x # xs) =
     (case f x of Inl e \<Rightarrow> Inl e
      | Inr y \<Rightarrow> (case map_or_fail f xs of Inl e \<Rightarrow> Inl e | Inr ys \<Rightarrow> Inr (y # ys)))"

lemma map_or_fail_Inr:
  "(\<forall>x\<in>set xs. f x = Inr (g x)) \<Longrightarrow> map_or_fail f xs = Inr (map g xs)"
  by (induction xs) auto

lemma map_or_fail_Inr_length: "map_or_fail f xs = Inr ys \<Longrightarrow> length ys = length xs"
  by (induction xs arbitrary: ys) (auto split: sum.splits)

lemma map_or_fail_Inr_all2:
  "map_or_fail f xs = Inr ys \<Longrightarrow> list_all2 (\<lambda>x y. f x = Inr y) xs ys"
  by (induction xs arbitrary: ys) (auto split: sum.splits)

lemma map_or_fail_Inr_set:
  "map_or_fail f xs = Inr ys \<Longrightarrow> y \<in> set ys \<Longrightarrow> \<exists>x\<in>set xs. f x = Inr y"
  by (induction xs arbitrary: ys) (auto split: sum.splits)

lemma map_or_fail_Inl_prop:
  "map_or_fail f xs = Inl e \<Longrightarrow> (\<And>x e'. x \<in> set xs \<Longrightarrow> f x = Inl e' \<Longrightarrow> P e') \<Longrightarrow> P e"
  by (induction xs) (auto split: sum.splits)

lemma map_or_fail_some_Inl:
  "\<exists>x\<in>set xs. \<exists>e. f x = Inl e \<Longrightarrow> \<exists>e. map_or_fail f xs = Inl e"
proof (induction xs)
  case Nil
  then show ?case by simp
next
  case (Cons a xs)
  show ?case
  proof (cases "f a")
    case (Inl e)
    then show ?thesis by simp
  next
    case (Inr y)
    with Cons.prems have "\<exists>x\<in>set xs. \<exists>e. f x = Inl e" by auto
    with Cons.IH obtain e where "map_or_fail f xs = Inl e" by blast
    with Inr show ?thesis by simp
  qed
qed

end
