(* ===== verification/Extractor.thy ===== *)
theory Extractor
  imports Prelude
begin

text \<open>
  The query of a remote-read request (prompb.Query, prompb.LabelMatcher) and
  the query extractor of \<open>runQuery\<close> (src/main.go, lines 47--67): one pass
  over the label matchers that keeps, for each of the names \<open>__name__\<close>,
  \<open>functionName\<close>, \<open>target\<close> and \<open>type\<close>, the value of the last matcher
  with that name, followed by the check that the function name is not empty.
  The matcher type (equality, regular expression, negation) is carried by the
  wire format but never read by the code. Like prompb's
  \<open>LabelMatcher_Type\<close>, it is an \<open>int32\<close>: \<open>EQ\<close> is 0 and the
  types NEQ, RE and NRE are 1, 2 and 3; the decoder keeps any other value.
\<close>

subsection \<open>Data\<close>

type_synonym MatchType = "32 word"

definition EQ :: MatchType where
  "EQ = 0"

record LabelMatcher =
  lm_type :: MatchType
  lm_name :: string
  lm_value :: string

record Query =
  StartTimestampMs :: int64
  EndTimestampMs :: int64
  Matchers :: "LabelMatcher list"

text \<open>The four local variables of \<open>runQuery\<close> that the loop writes.\<close>

record query_params =
  metricName :: string
  functionName :: string
  paramTarget :: string
  paramType :: string

definition params_init :: query_params where
  "params_init = \<lparr>metricName = '''', functionName = '''', paramTarget = '''', paramType = ''''\<rparr>"

subsection \<open>The loop and the guard\<close>

text \<open>One iteration of \<open>for _, m := range q.Matchers\<close>: four independent \<open>if\<close>s.\<close>

definition scan_matcher :: "LabelMatcher \<Rightarrow> query_params \<Rightarrow> query_params" where
  "scan_matcher m p =
     (let p1 = (if lm_name m = ''__name__'' then p\<lparr>metricName := lm_value m\<rparr> else p);
          p2 = (if lm_name m = ''functionName'' then p1\<lparr>functionName := lm_value m\<rparr> else p1);
          p3 = (if lm_name m = ''target'' then p2\<lparr>paramTarget := lm_value m\<rparr> else p2)
      in if lm_name m = ''type'' then p3\<lparr>paramType := lm_value m\<rparr> else p3)"

definition scan_matchers :: "LabelMatcher list \<Rightarrow> query_params" where
  "scan_matchers ms = fold scan_matcher ms params_init"

text \<open>
  \<open>if functionName == "" { return nil, fmt.Errorf("no function name specified") }\<close>
\<close>

definition extract_params :: "LabelMatcher list \<Rightarrow> go_error + query_params" where
  "extract_params ms =
     (let p = scan_matchers ms
      in if functionName p = '''' then Inl (GoErr ''no function name specified'') else Inr p)"

subsection \<open>Reference specification\<close>

text \<open>The value the spec promises for a name: that of its last matcher, else empty.\<close>

definition matcher_value :: "string \<Rightarrow> LabelMatcher list \<Rightarrow> string" where
  "matcher_value k ms = last_where (\<lambda>m. lm_name m = k) lm_value '''' ms"

definition params_spec :: "LabelMatcher list \<Rightarrow> query_params" where
  "params_spec ms =
     \<lparr>metricName = matcher_value ''__name__'' ms,
      functionName = matcher_value ''functionName'' ms,
      paramTarget = matcher_value ''target'' ms,
      paramType = matcher_value ''type'' ms\<rparr>"

subsection \<open>Lemmas\<close>

lemma scan_matcher_fields:
  "metricName (scan_matcher m p) = (if lm_name m = ''__name__'' then lm_value m else metricName p)"
  "functionName (scan_matcher m p) = (if lm_name m = ''functionName'' then lm_value m else functionName p)"
  "paramTarget (scan_matcher m p) = (if lm_name m = ''target'' then lm_value m else paramTarget p)"
  "paramType (scan_matcher m p) = (if lm_name m = ''type'' then lm_value m else paramType p)"
  by (simp_all add: scan_matcher_def Let_def)

lemma scan_matcher_more [simp]: "query_params.more (scan_matcher m p) = query_params.more p"
  by (simp add: scan_matcher_def Let_def)

lemma fold_scan_matcher_field:
  assumes "\<And>m p. sel (scan_matcher m p) = (if lm_name m = k then lm_value m else sel p)"
  shows "sel (fold scan_matcher ms p) = last_where (\<lambda>m. lm_name m = k) lm_value (sel p) ms"
  using assms by (induction ms rule: rev_induct) simp_all

lemmas scan_matchers_field_rules =
  fold_scan_matcher_field [of metricName "''__name__''", OF scan_matcher_fields(1)]
  fold_scan_matcher_field [of functionName "''functionName''", OF scan_matcher_fields(2)]
  fold_scan_matcher_field [of paramTarget "''target''", OF scan_matcher_fields(3)]
  fold_scan_matcher_field [of paramType "''type''", OF scan_matcher_fields(4)]

lemma scan_matchers_eq_spec: "scan_matchers ms = params_spec ms"
proof -
  have m: "query_params.more (fold scan_matcher ms params_init) = ()"
    by (induction ms rule: rev_induct) (simp_all add: params_init_def)
  show ?thesis
    using m unfolding scan_matchers_def params_spec_def matcher_value_def
    by (simp add: scan_matchers_field_rules params_init_def)
qed

lemma scan_matcher_type_irrelevant:
  "scan_matcher (m\<lparr>lm_type := t\<rparr>) = scan_matcher m"
  by (simp add: fun_eq_iff scan_matcher_def)

lemma extract_params_cases:
  "extract_params ms =
     (if matcher_value ''functionName'' ms = '''' then Inl (GoErr ''no function name specified'')
      else Inr (params_spec ms))"
  by (simp add: extract_params_def scan_matchers_eq_spec params_spec_def)

lemma scan_matchers_type_irrelevant:
  "scan_matchers (map (\<lambda>m. m\<lparr>lm_type := t m\<rparr>) ms) = scan_matchers ms"
  by (simp add: scan_matchers_def fold_map comp_def scan_matcher_type_irrelevant)

subsection \<open>Properties\<close>

text \<open>
  C5: extraction succeeds exactly when the last matcher named
  \<open>functionName\<close> has a non-empty value, and then each of the four
  parameters is the value of the last matcher with its name (empty if there is
  none); otherwise it fails with \<open>no function name specified\<close>.
\<close>

theorem extract_params_spec:
  "extract_params ms =
     (if matcher_value ''functionName'' ms = '''' then Inl (GoErr ''no function name specified'')
      else Inr (params_spec ms))"
  by (rule extract_params_cases)

text \<open>
  C11: the matcher type is ignored: a \<open>functionName!="f"\<close> or a regular
  expression matcher is read as if it were an equality.
\<close>

theorem extract_params_ignores_match_type:
  "extract_params (map (\<lambda>m. m\<lparr>lm_type := t m\<rparr>) ms) = extract_params ms"
  unfolding extract_params_def by (simp add: scan_matchers_type_irrelevant)

end
