(* ===== verification/GoTime.thy ===== *)
theory GoTime
  imports Prelude
begin

text \<open>
  The time arithmetic of \<open>runQuery\<close> (src/main.go, lines 44--45 and 70--71):
  \<open>time.Unix(ms/1000, ms%1000*1000)\<close> on the query's int64 millisecond
  bounds, and \<open>Time.Format(time.RFC3339)\<close> of the result. \<open>time.Unix\<close>
  normalises its nanosecond argument into \<open>[0, 10^9)\<close>; \<open>Format\<close> prints
  the proleptic Gregorian date and time of the instant shifted by the offset of
  the process's local zone, then the zone as \<open>Z\<close> or \<open>+hh:mm\<close>. The calendar
  is computed here with 400-year cycles and a year/month scan; it is the
  contract of the Go library's \<open>absDate\<close>, not its code.
\<close>

subsection \<open>int64 arithmetic\<close>

text \<open>Two's complement wrap-around of a Go int64 operation computed on \<open>int\<close>.\<close>

definition wrap64 :: "int \<Rightarrow> int" where
  "wrap64 x = sint (word_of_int x :: int64)"

lemma wrap64_id [simp]: "int64_range x \<Longrightarrow> wrap64 x = x"
  unfolding wrap64_def int64_range_def
  by (simp add: signed_take_bit_int_eq_self sint_sbintrunc')

subsection \<open>time.Unix\<close>

record go_time =
  unix_sec :: int
  unix_nsec :: int

text \<open>
  \<^verbatim>\<open>if nsec < 0 || nsec >= 1e9 { n := nsec / 1e9; sec += n; nsec -= n * 1e9;
     if nsec < 0 { nsec += 1e9; sec-- } }\<close>
\<close>

definition time_unix :: "int \<Rightarrow> int \<Rightarrow> go_time" where
  "time_unix sec nsec =
     (if nsec < 0 \<or> 1000000000 \<le> nsec then
        (let n = go_div nsec 1000000000;
             sec1 = wrap64 (sec + n);
             nsec1 = wrap64 (nsec - n * 1000000000)
         in if nsec1 < 0 then \<lparr>unix_sec = wrap64 (sec1 - 1), unix_nsec = nsec1 + 1000000000\<rparr>
            else \<lparr>unix_sec = sec1, unix_nsec = nsec1\<rparr>)
      else \<lparr>unix_sec = sec, unix_nsec = nsec\<rparr>)"

text \<open>
  \<open>time.Unix(int64(q.StartTimestampMs/1000), int64(q.StartTimestampMs%1000*1000))\<close>:
  the remainder in milliseconds is multiplied by 1000 and passed as
  nanoseconds, so the sub-second part is scaled to microseconds.
\<close>

definition query_time :: "int64 \<Rightarrow> go_time" where
  "query_time ms =
     time_unix (go_div (sint ms) 1000) (wrap64 (go_mod (sint ms) 1000 * 1000))"

subsection \<open>The proleptic Gregorian calendar\<close>

definition is_leap :: "int \<Rightarrow> bool" where
  "is_leap y \<longleftrightarrow> 4 dvd y \<and> (\<not> 100 dvd y \<or> 400 dvd y)"

definition days_in_year :: "int \<Rightarrow> int" where
  "days_in_year y = (if is_leap y then 366 else 365)"

definition days_in_month :: "int \<Rightarrow> nat \<Rightarrow> int" where
  "days_in_month y m =
     (if m = 2 then (if is_leap y then 29 else 28)
      else if m = 4 \<or> m = 6 \<or> m = 9 \<or> m = 11 then 30 else 31)"

text \<open>Leap years strictly before year \<open>y\<close> (counted from a fixed origin).\<close>

definition leaps_before :: "int \<Rightarrow> int" where
  "leaps_before y = (y - 1) div 4 - (y - 1) div 100 + (y - 1) div 400"

definition days_before_year :: "int \<Rightarrow> int" where
  "days_before_year y = 365 * (y - 1970) + leaps_before y - leaps_before 1970"

definition days_before_month :: "int \<Rightarrow> nat \<Rightarrow> int" where
  "days_before_month y m = (\<Sum>k\<leftarrow>[1..<m]. days_in_month y k)"

definition days_from_civil :: "int \<Rightarrow> nat \<Rightarrow> int \<Rightarrow> int" where
  "days_from_civil y m d = days_before_year y + days_before_month y m + (d - 1)"

function year_scan :: "int \<Rightarrow> int \<Rightarrow> int \<times> int" where
  "year_scan y r =
     (if r < 0 \<or> r < days_in_year y then (y, r) else year_scan (y + 1) (r - days_in_year y))"
  by pat_completeness auto
termination
  by (relation "measure (\<lambda>(y, r). nat r)") (auto simp: days_in_year_def split: if_splits)

function month_scan :: "int \<Rightarrow> nat \<Rightarrow> int \<Rightarrow> nat \<times> int" where
  "month_scan y m r =
     (if 12 \<le> m \<or> r < days_in_month y m then (m, r)
      else month_scan y (Suc m) (r - days_in_month y m))"
  by pat_completeness auto
termination
  by (relation "measure (\<lambda>(y, m, r). 12 - m)") auto

declare year_scan.simps [simp del] month_scan.simps [simp del]

text \<open>Days since 1970-01-01 to (year, month, day).\<close>

definition civil_from_days :: "int \<Rightarrow> int \<times> nat \<times> int" where
  "civil_from_days d =
     (let (y, r) = year_scan (1970 + 400 * (d div 146097)) (d mod 146097);
          (m, r') = month_scan y 1 r
      in (y, m, r' + 1))"

subsection \<open>Formatting\<close>

definition digit_char :: "nat \<Rightarrow> char" where
  "digit_char n = char_of (48 + n)"

fun dec_digits :: "nat \<Rightarrow> string" where
  "dec_digits n = (if n < 10 then [digit_char n] else dec_digits (n div 10) @ [digit_char (n mod 10)])"

declare dec_digits.simps [simp del]

text \<open>Go's \<open>appendInt(b, x, width)\<close>: sign, then zero padding to \<open>width\<close> digits.\<close>

definition append_int :: "int \<Rightarrow> nat \<Rightarrow> string" where
  "append_int x width =
     (let ds = dec_digits (nat \<bar>x\<bar>)
      in (if x < 0 then ''-'' else '''') @ replicate (width - length ds) (CHR ''0'') @ ds)"

text \<open>The \<open>Z07:00\<close> element: \<open>Z\<close> for UTC, else the offset in hours and minutes.\<close>

definition format_zone :: "int \<Rightarrow> string" where
  "format_zone off =
     (if off = 0 then ''Z''
      else let zone = go_div off 60;
               sign = (if zone < 0 then ''-'' else ''+'');
               z = \<bar>zone\<bar>
           in sign @ append_int (go_div z 60) 2 @ '':'' @ append_int (go_mod z 60) 2)"

text \<open>
  \<open>t.Format("2006-01-02T15:04:05Z07:00")\<close> for a time whose location has
  UTC offset \<open>off\<close> seconds.
\<close>

definition rfc3339 :: "int \<Rightarrow> go_time \<Rightarrow> string" where
  "rfc3339 off t =
     (let s = unix_sec t + off;
          (y, m, d) = civil_from_days (s div 86400);
          sod = s mod 86400
      in append_int y 4 @ ''-'' @ append_int (int m) 2 @ ''-'' @ append_int d 2 @ ''T'' @
         append_int (sod div 3600) 2 @ '':'' @ append_int (sod mod 3600 div 60) 2 @ '':'' @
         append_int (sod mod 60) 2 @ format_zone off)"

lemma div_step_int:
  assumes k: "0 < (k::int)"
  shows "y div k = (y - 1) div k + (if k dvd y then 1 else 0)"
proof -
  define q r where "q = (y - 1) div k" and "r = (y - 1) mod k"
  have y: "y = k * q + (r + 1)" and r: "0 \<le> r" "r < k"
    using k by (simp_all add: q_def r_def)
  show ?thesis
  proof (cases "r + 1 = k")
    case True
    then have yq: "y = k * (q + 1)" using y by (simp add: algebra_simps)
    then have "y div k = q + 1" using k by simp
    moreover have "k dvd y" using yq by simp
    ultimately show ?thesis by (simp add: q_def)
  next
    case False
    then have r1: "0 \<le> r + 1" "r + 1 < k" using r by simp_all
    have "y = (r + 1) + k * q" using y by simp
    then have "y div k = q + (r + 1) div k" using k by simp
    also have "(r + 1) div k = 0" using r1 by (simp add: div_pos_pos_trivial)
    finally have "y div k = q" by simp
    moreover have "\<not> k dvd y"
    proof
      assume "k dvd y"
      then have "k dvd (r + 1)" using y by (simp add: dvd_add_right_iff)
      moreover have "0 < r + 1" using r by simp
      ultimately have "k \<le> r + 1" by (rule zdvd_imp_le)
      with r1 show False by simp
    qed
    ultimately show ?thesis by (simp add: q_def)
  qed
qed

lemma leap_count_step:
  fixes a4 a100 a400 b4 b100 b400 :: int
  assumes "a4 = b4 + (if P4 then 1 else 0)" "a100 = b100 + (if P100 then 1 else 0)"
    "a400 = b400 + (if P400 then 1 else 0)" "P400 \<Longrightarrow> P100" "P100 \<Longrightarrow> P4"
  shows "a4 - a100 + a400 = b4 - b100 + b400 + (if P4 \<and> (\<not> P100 \<or> P400) then 1 else 0)"
  using assms by (cases P4; cases P100; cases P400) simp_all

lemma leaps_before_step:
  "leaps_before (y + 1) = leaps_before y + (if is_leap y then 1 else 0)"
proof -
  have d: "y div 4 = (y - 1) div 4 + (if 4 dvd y then 1 else 0)"
    "y div 100 = (y - 1) div 100 + (if 100 dvd y then 1 else 0)"
    "y div 400 = (y - 1) div 400 + (if 400 dvd y then 1 else 0)"
    by (rule div_step_int; simp)+
  have i: "400 dvd y \<Longrightarrow> 100 dvd y" "100 dvd y \<Longrightarrow> 4 dvd y"
    by (rule dvd_trans [of _ 400], simp, assumption) (rule dvd_trans [of _ 100], simp, assumption)
  have "y div 4 - y div 100 + y div 400 =
      (y - 1) div 4 - (y - 1) div 100 + (y - 1) div 400 +
      (if 4 dvd y \<and> (\<not> 100 dvd y \<or> 400 dvd y) then 1 else 0)"
    by (rule leap_count_step [OF d i])
  then show ?thesis by (simp add: leaps_before_def is_leap_def)
qed

lemma days_before_year_step: "days_before_year (y + 1) = days_before_year y + days_in_year y"
  by (simp add: days_before_year_def days_in_year_def leaps_before_step)

lemma days_before_year_cycle: "days_before_year (1970 + 400 * q) = 146097 * q"
proof -
  have e: "1970 + 400 * q - 1 = 369 + 400 * (4 + q)" by simp
  have a: "(1970 + 400 * q - 1) div 4 = 492 + 100 * q"
  proof -
    have "1970 + 400 * q - 1 = 1 + (492 + 100 * q) * 4" by simp
    then show ?thesis by (simp only: div_mult_self1)
  qed
  have b: "(1970 + 400 * q - 1) div 100 = 19 + 4 * q"
  proof -
    have "1970 + 400 * q - 1 = 69 + (19 + 4 * q) * 100" by simp
    then show ?thesis by (simp only: div_mult_self1)
  qed
  have c: "(1970 + 400 * q - 1) div 400 = 4 + q"
  proof -
    have "1970 + 400 * q - 1 = 369 + (4 + q) * 400" by simp
    then show ?thesis by (simp only: div_mult_self1)
  qed
  show ?thesis unfolding days_before_year_def leaps_before_def a b c by simp
qed
lemma days_before_month_Suc:
  "1 \<le> m \<Longrightarrow> days_before_month y (Suc m) = days_before_month y m + days_in_month y m"
  by (simp add: days_before_month_def)

lemma days_before_month_1 [simp]: "days_before_month y (Suc 0) = 0"
  by (simp add: days_before_month_def)

lemma days_before_month_13: "days_before_month y 13 = days_in_year y"
  by (simp add: days_before_month_def upt_rec days_in_month_def days_in_year_def)

lemma days_in_month_pos: "0 < days_in_month y m"
  by (simp add: days_in_month_def)

lemma year_scan_correct:
  "0 \<le> r \<Longrightarrow> year_scan y r = (y', r') \<Longrightarrow>
   days_before_year y' + r' = days_before_year y + r \<and> 0 \<le> r' \<and> r' < days_in_year y'"
proof (induction y r rule: year_scan.induct)
  case (1 y r)
  show ?case
  proof (cases "r < 0 \<or> r < days_in_year y")
    case True
    with "1.prems" show ?thesis by (simp add: year_scan.simps [of y r])
  next
    case False
    with "1.prems" have "year_scan (y + 1) (r - days_in_year y) = (y', r')"
      by (simp add: year_scan.simps [of y r])
    with False "1.IH" have "days_before_year y' + r' = days_before_year (y + 1) + (r - days_in_year y) \<and> 0 \<le> r' \<and> r' < days_in_year y'"
      by simp
    then show ?thesis by (simp add: days_before_year_step)
  qed
qed

lemma month_scan_correct:
  "1 \<le> m \<Longrightarrow> m \<le> 12 \<Longrightarrow> 0 \<le> r \<Longrightarrow> days_before_month y m + r < days_in_year y \<Longrightarrow>
   month_scan y m r = (m', r') \<Longrightarrow>
   days_before_month y m' + r' = days_before_month y m + r \<and> 0 \<le> r' \<and> r' < days_in_month y m'
   \<and> 1 \<le> m' \<and> m' \<le> 12"
proof (induction y m r rule: month_scan.induct)
  case (1 y m r)
  show ?case
  proof (cases "12 \<le> m \<or> r < days_in_month y m")
    case True
    have "r < days_in_month y m"
    proof (cases "m = 12")
      case True
      with "1.prems"(4) days_before_month_13 [of y] days_before_month_Suc [of 12 y]
      show ?thesis by simp
    qed (use True "1.prems" in simp)
    with True "1.prems" show ?thesis by (simp add: month_scan.simps [of y m r])
  next
    case False
    with "1.prems" have "month_scan y (Suc m) (r - days_in_month y m) = (m', r')"
      by (simp add: month_scan.simps [of y m r])
    with False "1.prems" "1.IH" days_before_month_Suc [of m y] show ?thesis
      by simp
  qed
qed


lemma civil_from_days_correct:
  assumes c: "civil_from_days d = (y, m, dd)"
  shows "days_from_civil y m dd = d \<and> 1 \<le> m \<and> m \<le> 12 \<and> 1 \<le> dd \<and> dd \<le> days_in_month y m"
proof -
  obtain y1 r where ys: "year_scan (1970 + 400 * (d div 146097)) (d mod 146097) = (y1, r)"
    by fastforce
  obtain m1 r' where ms: "month_scan y1 1 r = (m1, r')"
    by fastforce
  from c ys ms have eq: "y = y1" "m = m1" "dd = r' + 1"
    by (simp_all add: civil_from_days_def)
  have "days_before_year y1 + r = days_before_year (1970 + 400 * (d div 146097)) + d mod 146097"
    and r: "0 \<le> r" "r < days_in_year y1"
    using year_scan_correct [OF _ ys] by simp_all
  then have yd: "days_before_year y1 + r = d"
    by (simp add: days_before_year_cycle)
  have "days_before_month y1 m1 + r' = r \<and> 0 \<le> r' \<and> r' < days_in_month y1 m1 \<and> 1 \<le> m1 \<and> m1 \<le> 12"
    using month_scan_correct [OF _ _ _ _ ms] r by simp
  with yd eq show ?thesis by (simp add: days_from_civil_def)
qed

lemma go_mod_1000_cases:
  fixes a :: int
  shows "go_mod a 1000 = a mod 1000 \<and> go_div a 1000 = a div 1000
         \<or> go_mod a 1000 = a mod 1000 - 1000 \<and> go_div a 1000 = a div 1000 + 1 \<and> a < 0 \<and> 0 < a mod 1000"
proof (cases "a < 0")
  case False
  then show ?thesis by simp
next
  case True
  have d: "go_div a 1000 = - ((- a) div 1000)" and m: "go_mod a 1000 = - ((- a) mod 1000)"
    using True by (simp_all add: go_div_neg go_mod_neg)
  show ?thesis
  proof (cases "a mod 1000 = 0")
    case True
    then show ?thesis unfolding d m by (simp add: zdiv_zminus1_eq_if zmod_zminus1_eq_if)
  next
    case False
    have "0 \<le> a mod 1000" by simp
    with False True show ?thesis unfolding d m
      by (simp add: zdiv_zminus1_eq_if zmod_zminus1_eq_if)
  qed
qed

lemma query_time_fields:
  "unix_sec (query_time ms) = sint ms div 1000 \<and>
   unix_nsec (query_time ms) =
     (if go_mod (sint ms) 1000 < 0 then 1000000000 + go_mod (sint ms) 1000 * 1000
      else go_mod (sint ms) 1000 * 1000)"
proof -
  define a where "a = sint ms"
  have ra: "int64_range a" by (simp add: a_def)
  have rr: "- 1000 < go_mod a 1000" "go_mod a 1000 < 1000"
    using go_mod_bound [of 1000 a] by simp_all
  then have w: "wrap64 (go_mod a 1000 * 1000) = go_mod a 1000 * 1000"
    by (simp add: int64_range_def)
  have n0: "go_div (go_mod a 1000 * 1000) 1000000000 = 0"
  proof (cases "go_mod a 1000 < 0")
    case True
    then show ?thesis using rr by (simp add: go_div_neg)
  next
    case False
    then show ?thesis using rr by simp
  qed
  have rd: "int64_range (go_div a 1000)" "int64_range (go_div a 1000 - 1)"
    using go_mod_1000_cases [of a] ra by (auto simp: int64_range_def)
  have rm: "int64_range (go_mod a 1000 * 1000)"
    using rr by (simp add: int64_range_def)
  show ?thesis
    using go_mod_1000_cases [of a] rr
    unfolding a_def [symmetric] query_time_def time_unix_def w n0 Let_def
    using rd rm by auto
qed

lemma query_time_instant_cases:
  "unix_sec (query_time ms) * 1000000000 + unix_nsec (query_time ms) =
   sint ms div 1000 * 1000000000 + sint ms mod 1000 * 1000 +
   (if go_mod (sint ms) 1000 < 0 then 999000000 else 0)"
  using query_time_fields [of ms] go_mod_1000_cases [of "sint ms"] by auto

subsection \<open>Properties\<close>

text \<open>
  C7: the time bounds sent to the backend are the query's bounds rounded down
  to the second. The code passes the millisecond remainder times 1000 to
  \<open>time.Unix\<close> as nanoseconds, so the \<open>Time\<close> value is off by up to a second
  for a negative timestamp and by up to 999 ms otherwise; RFC3339 prints whole
  seconds only, so the string equals that of the exact instant of \<open>ms\<close>.
\<close>

theorem query_time_rfc3339_exact:
  "rfc3339 off (query_time ms) =
   rfc3339 off \<lparr>unix_sec = sint ms div 1000, unix_nsec = sint ms mod 1000 * 1000000\<rparr>"
  using query_time_fields [of ms] by (simp add: rfc3339_def)

text \<open>
  C8: the \<open>Time\<close> built by \<open>runQuery\<close> is the instant of the query bound
  exactly when the bound is a whole number of seconds: the nanosecond field is
  normalised into \<open>[0, 10^9)\<close>, and the instant in nanoseconds equals
  \<open>ms * 10^6\<close> if and only if \<open>1000\<close> divides \<open>ms\<close>.
\<close>

theorem query_time_instant:
  "0 \<le> unix_nsec (query_time ms) \<and> unix_nsec (query_time ms) < 1000000000 \<and>
   (unix_sec (query_time ms) * 1000000000 + unix_nsec (query_time ms) = sint ms * 1000000
    \<longleftrightarrow> 1000 dvd sint ms)"
proof -
  define a where "a = sint ms"
  have m: "0 \<le> a mod 1000" "a mod 1000 < 1000" by simp_all
  have e: "a * 1000000 = a div 1000 * 1000000000 + a mod 1000 * 1000000"
  proof -
    have "a * 1000000 = (a div 1000 * 1000 + a mod 1000) * 1000000"
      by simp
    also have "\<dots> = a div 1000 * 1000000000 + a mod 1000 * 1000000"
      by (simp only: distrib_right mult.assoc)
    finally show ?thesis .
  qed
  from go_mod_1000_cases [of a] show ?thesis
    using query_time_fields [of ms] query_time_instant_cases [of ms] m e
    unfolding a_def [symmetric]
    by (auto simp: dvd_eq_mod_eq_0)
qed



theorem query_time_instant_witness:
  "unix_nsec (query_time 1500) = 500000 \<and> \<not> (1000 dvd sint (1500 :: int64))"
proof -
  have "\<not> (1000 dvd sint (1500 :: int64))" by simp
  moreover have "unix_nsec (query_time 1500) = 500000"
    by (simp add: query_time_def time_unix_def go_mod_def go_div_def signed_modulo_int_def
        signed_divide_int_def wrap64_def)
  ultimately show ?thesis using query_time_instant [of 1500] by simp
qed

end
