(* ===== verification/Payload.thy ===== *)
theory Payload
  imports Prelude
begin

text \<open>
  The backend payload of \<open>runQuery\<close> (src/main.go, lines 68--81):
  \<open>json.Marshal\<close> of a \<open>map[string]interface{}\<close> holding two
  \<open>map[string]string\<close>. encoding/json writes map keys in sorted order and
  escapes every string the way \<open>encodeState.string\<close> does with HTML escaping
  on: \<open>"\<close> and \<open>\\\<close> are backslash-escaped, newline, carriage return and tab
  get their short escapes, other control bytes and \<open><\<close>, \<open>>\<close>, \<open>&\<close> become
  \<open>\u00XX\<close>, a byte that does not start a valid UTF-8 sequence becomes
  \<open>\ufffd\<close>, and U+2028 and U+2029 are escaped; all other bytes are copied.
  Marshalling such a map cannot fail, so the error branch of line 79 is dead.
\<close>

subsection \<open>UTF-8 decoding (unicode/utf8.DecodeRuneInString)\<close>

definition rune_error :: nat where
  "rune_error = 65533"

text \<open>
  Go's \<open>first\<close> and \<open>acceptRanges\<close> tables: for a leading byte of a
  multi-byte sequence, the sequence length and the range of the second byte.
\<close>

definition utf8_first :: "nat \<Rightarrow> (nat \<times> nat \<times> nat) option" where
  "utf8_first b =
     (if 194 \<le> b \<and> b \<le> 223 then Some (2, 128, 191)
      else if b = 224 then Some (3, 160, 191)
      else if 225 \<le> b \<and> b \<le> 236 then Some (3, 128, 191)
      else if b = 237 then Some (3, 128, 159)
      else if 238 \<le> b \<and> b \<le> 239 then Some (3, 128, 191)
      else if b = 240 then Some (4, 144, 191)
      else if 241 \<le> b \<and> b \<le> 243 then Some (4, 128, 191)
      else if b = 244 then Some (4, 128, 143)
      else None)"

definition is_cont :: "nat \<Rightarrow> bool" where
  "is_cont b \<longleftrightarrow> 128 \<le> b \<and> b \<le> 191"

text \<open>
  The rune and the number of bytes it occupies; \<open>(rune_error, 1)\<close> for an
  invalid or truncated sequence. The masks \<open>s0&mask2\<close>, \<open>s1&maskx\<close>, ...
  are written as remainders, which they equal on the bytes that reach them.
\<close>

definition decode_rune :: "string \<Rightarrow> nat \<times> nat" where
  "decode_rune s =
     (case s of [] \<Rightarrow> (rune_error, 0)
      | c0 # _ \<Rightarrow>
         let b0 = of_char c0 in
         if b0 < 128 then (b0, 1)
         else case utf8_first b0 of
           None \<Rightarrow> (rune_error, 1)
         | Some (sz, lo, hi) \<Rightarrow>
             if length s < sz then (rune_error, 1)
             else let b1 = of_char (s ! 1) in
             if b1 < lo \<or> hi < b1 then (rune_error, 1)
             else if sz = 2 then ((b0 mod 32) * 64 + b1 mod 64, 2)
             else let b2 = of_char (s ! 2) in
             if \<not> is_cont b2 then (rune_error, 1)
             else if sz = 3 then ((b0 mod 16) * 4096 + (b1 mod 64) * 64 + b2 mod 64, 3)
             else let b3 = of_char (s ! 3) in
             if \<not> is_cont b3 then (rune_error, 1)
             else ((b0 mod 8) * 262144 + (b1 mod 64) * 4096 + (b2 mod 64) * 64 + b3 mod 64, 4))"

subsection \<open>String escaping (encoding/json encodeState.string, escapeHTML = true)\<close>

definition hex_char :: "nat \<Rightarrow> char" where
  "hex_char n = ''0123456789abcdef'' ! n"

definition bslash :: char where
  "bslash = char_of (92 :: nat)"

definition dquote :: char where
  "dquote = char_of (34 :: nat)"

text \<open>\<open>htmlSafeSet\<close>: printable ASCII and DEL, except \<open>"\<close>, \<open>\\\<close>, \<open><\<close>, \<open>>\<close>, \<open>&\<close>.\<close>

definition html_safe :: "nat \<Rightarrow> bool" where
  "html_safe b \<longleftrightarrow> 32 \<le> b \<and> b < 128 \<and> b \<notin> {34, 92, 60, 62, 38}"

definition escape_ascii :: "nat \<Rightarrow> string" where
  "escape_ascii b =
     (if html_safe b then [char_of b]
      else if b = 92 \<or> b = 34 then [bslash, char_of b]
      else if b = 10 then [bslash, CHR ''n'']
      else if b = 13 then [bslash, CHR ''r'']
      else if b = 9 then [bslash, CHR ''t'']
      else [bslash, CHR ''u'', CHR ''0'', CHR ''0'', hex_char (b div 16), hex_char (b mod 16)])"

function json_escape :: "string \<Rightarrow> string" where
  "json_escape [] = []"
| "json_escape (c # cs) =
     (if of_char c < (128 :: nat) then escape_ascii (of_char c) @ json_escape cs
      else let (r, sz) = decode_rune (c # cs) in
        if r = rune_error \<and> sz = 1 then [bslash] @ ''ufffd'' @ json_escape cs
        else if r = 8232 \<or> r = 8233 then
          [bslash] @ ''u202'' @ [hex_char (r mod 16)] @ json_escape (drop sz (c # cs))
        else take sz (c # cs) @ json_escape (drop sz (c # cs)))"
  by pat_completeness auto

lemma decode_rune_size: "decode_rune (c # cs) = (r, sz) \<Longrightarrow> 1 \<le> sz"
  by (auto simp: decode_rune_def Let_def split: option.splits if_splits prod.splits)

termination json_escape
  by (relation "measure length") (auto dest: decode_rune_size [OF sym])

definition json_string :: "string \<Rightarrow> string" where
  "json_string s = [dquote] @ json_escape s @ [dquote]"

text \<open>
  \<open>{"range":{"from":...,"to":...},"targets":{"target":...,"type":...}}\<close>,
  keys sorted as encoding/json sorts map keys.
\<close>

definition lambda_payload :: "string \<Rightarrow> string \<Rightarrow> string \<Rightarrow> string \<Rightarrow> bytes" where
  \<open>lambda_payload from to target typ =
     ''{"range":{"from":'' @ json_string from @ '',"to":'' @ json_string to @
     ''},"targets":{"target":'' @ json_string target @ '',"type":'' @ json_string typ @ ''}}''\<close>

end
