(* ===== verification/Float64.thy ===== *)
theory Float64
  imports Prelude Complex_Main
begin

text \<open>
  The conversion \<open>float64(datapoint[0])\<close> of the result mapper
  (src/main.go, line 108): a Go \<open>int\<close> (64 bits) converted to an IEEE 754
  binary64, rounding to nearest with ties to even, as the hardware conversion
  does. A double is represented by its bit pattern (\<open>math.Float64bits\<close>),
  which is also what the protobuf encoder writes. \<open>float64_val\<close> reads the
  real number a finite bit pattern denotes.
\<close>

type_synonym float64 = "64 word"

fun bitlen :: "nat \<Rightarrow> nat" where
  "bitlen 0 = 0"
| "bitlen n = Suc (bitlen (n div 2))"

definition f64_pack :: "bool \<Rightarrow> nat \<Rightarrow> nat \<Rightarrow> float64" where
  "f64_pack s e f = word_of_nat ((if s then 2 ^ 63 else 0) + e * 2 ^ 52 + f)"

text \<open>
  A magnitude \<open>m\<close> with \<open>2^e \<le> m < 2^(e+1)\<close> is exact when \<open>e \<le> 52\<close>;
  otherwise the low \<open>e - 52\<close> bits are rounded away, ties to an even
  significand, and a carry out of the significand bumps the exponent.
\<close>

definition float64_of_int :: "int \<Rightarrow> float64" where
  "float64_of_int x =
     (if x = 0 then 0
      else
        let s = x < 0; m = nat \<bar>x\<bar>; e = bitlen m - 1
        in if e \<le> 52 then f64_pack s (e + 1023) (m * 2 ^ (52 - e) - 2 ^ 52)
           else
             let sh = e - 52; q = m div 2 ^ sh; r = m mod 2 ^ sh; h = 2 ^ (sh - 1);
                 q' = (if h < r \<or> (r = h \<and> odd q) then q + 1 else q)
             in if q' = 2 ^ 53 then f64_pack s (e + 1024) 0
                else f64_pack s (e + 1023) (q' - 2 ^ 52))"

definition f64_sign :: "float64 \<Rightarrow> bool" where
  "f64_sign w \<longleftrightarrow> 2 ^ 63 \<le> unat w"

definition f64_exp :: "float64 \<Rightarrow> nat" where
  "f64_exp w = unat w div 2 ^ 52 mod 2 ^ 11"

definition f64_frac :: "float64 \<Rightarrow> nat" where
  "f64_frac w = unat w mod 2 ^ 52"

text \<open>The value of a finite double (normal or subnormal); exponent 2047 is not finite.\<close>

definition float64_val :: "float64 \<Rightarrow> real" where
  "float64_val w =
     (if f64_sign w then -1 else 1) *
     (if f64_exp w = 0 then real (f64_frac w) / 2 ^ 1074
      else real (2 ^ 52 + f64_frac w) * 2 ^ f64_exp w / 2 ^ 1075)"

lemma bitlen_bounds: "0 < m \<Longrightarrow> 2 ^ (bitlen m - 1) \<le> m \<and> m < 2 ^ bitlen m"
proof (induction m rule: bitlen.induct)
  case 1
  then show ?case by simp
next
  case (2 n)
  show ?case
  proof (cases "Suc n div 2 = 0")
    case True
    then have "n = 0" by simp
    then show ?thesis by simp
  next
    case False
    with "2.IH" have ih: "2 ^ (bitlen (Suc n div 2) - 1) \<le> Suc n div 2" "Suc n div 2 < 2 ^ bitlen (Suc n div 2)"
      by simp_all
    have pos: "0 < bitlen (Suc n div 2)" using False by (cases "Suc n div 2") simp_all
    from ih(1) have "2 * 2 ^ (bitlen (Suc n div 2) - 1) \<le> Suc n" by linarith
    then have lo: "2 ^ bitlen (Suc n div 2) \<le> Suc n"
      using pos by (metis Suc_diff_1 power_Suc)
    from ih(2) have hi: "Suc n < 2 * 2 ^ bitlen (Suc n div 2)" by linarith
    from lo hi show ?thesis by simp
  qed
qed

lemma f64_pack_unat:
  "e < 2048 \<Longrightarrow> f < 2 ^ 52 \<Longrightarrow> unat (f64_pack s e f) = (if s then 2 ^ 63 else 0) + e * 2 ^ 52 + f"
proof -
  assume e: "e < 2048" and f: "f < 2 ^ 52"
  have "e * 2 ^ 52 \<le> 2047 * (2::nat) ^ 52" using e by simp
  then have "(if s then 2 ^ 63 else 0) + e * 2 ^ 52 + f < (2::nat) ^ 64" using f by auto
  then show ?thesis unfolding f64_pack_def unat_of_nat by simp
qed

lemma f64_pack_fields:
  assumes e: "e < 2048" and f: "f < 2 ^ 52"
  shows "f64_sign (f64_pack s e f) = s \<and> f64_exp (f64_pack s e f) = e \<and> f64_frac (f64_pack s e f) = f"
proof -
  define n where "n = (if s then 2 ^ 63 else 0) + e * 2 ^ 52 + (f::nat)"
  have u: "unat (f64_pack s e f) = n" using f64_pack_unat [OF e f] by (simp add: n_def)
  have n2: "n = ((if s then 2 ^ 11 else 0) + e) * 2 ^ 52 + f" by (simp add: n_def algebra_simps)
  have d: "n div 2 ^ 52 = (if s then 2 ^ 11 else 0) + e"
    unfolding n2 div_mult_self3 [OF power_not_zero [of "2::nat"], simplified] using f by simp
  have m: "n mod 2 ^ 52 = f" unfolding n2 mod_mult_self3 using f by simp
  have "e * 2 ^ 52 + f < (2::nat) ^ 63"
  proof -
    have "e * 2 ^ 52 \<le> 2047 * (2::nat) ^ 52" using e by simp
    then show ?thesis using f by simp
  qed
  then have sg: "(2 ^ 63 \<le> n) = s" by (auto simp: n_def)
  show ?thesis using u d m sg e by (simp add: f64_sign_def f64_exp_def f64_frac_def)
qed

lemma float64_val_pack:
  "e < 2048 \<Longrightarrow> f < 2 ^ 52 \<Longrightarrow> 0 < e \<Longrightarrow>
   float64_val (f64_pack s e f) = (if s then -1 else 1) * real (2 ^ 52 + f) * 2 ^ e / 2 ^ 1075"
  using f64_pack_fields [of e f s] by (simp add: float64_val_def)

subsection \<open>Properties\<close>

text \<open>
  C12: the sample value is numerically the backend's integer whenever that
  integer is at most \<open>2^53\<close> in magnitude: the conversion of line 108 is
  exact there (beyond, it rounds to the nearest double).
\<close>

theorem float64_of_int_exact:
  assumes x: "\<bar>x\<bar> \<le> 2 ^ 53"
  shows "float64_val (float64_of_int x) = of_int x"
proof (cases "x = 0")
  case True
  then show ?thesis by (simp add: float64_of_int_def float64_val_def f64_sign_def f64_exp_def f64_frac_def)
next
  case False
  define m where "m = nat \<bar>x\<bar>"
  define e where "e = bitlen m - 1"
  have m0: "0 < m" using False by (simp add: m_def)
  have b: "2 ^ e \<le> m" "m < 2 ^ Suc e"
    using bitlen_bounds [OF m0] m0 unfolding e_def by (simp_all, cases "bitlen m", simp_all)
  have mle: "m \<le> 2 ^ 53" using x by (simp add: m_def nat_le_iff)
  have sgn: "of_int x = (if x < 0 then -1 else 1) * real m" by (simp add: m_def)
  show ?thesis
  proof (cases "e \<le> 52")
    case True
    define f where "f = m * 2 ^ (52 - e) - 2 ^ 52"
    have "2 ^ 52 \<le> m * 2 ^ (52 - e)"
    proof -
      have "(2::nat) ^ 52 = 2 ^ e * 2 ^ (52 - e)" using True by (simp flip: power_add)
      also have "\<dots> \<le> m * 2 ^ (52 - e)" by (rule mult_le_mono1 [OF b(1)])
      finally show ?thesis .
    qed
    then have mf: "2 ^ 52 + f = m * 2 ^ (52 - e)" by (simp add: f_def)
    have "m * 2 ^ (52 - e) < 2 ^ 53"
    proof -
      have "m * 2 ^ (52 - e) < 2 ^ Suc e * 2 ^ (52 - e)" using b(2) by simp
      also have "\<dots> = 2 ^ 53" using True by (simp flip: power_add)
      finally show ?thesis .
    qed
    then have f: "f < 2 ^ 52" using mf by simp
    have conv: "float64_of_int x = f64_pack (x < 0) (e + 1023) f"
      using False True unfolding f_def e_def m_def by (simp add: float64_of_int_def Let_def)
    have "real (m * 2 ^ (52 - e)) * 2 ^ (e + 1023) = real m * 2 ^ 1075"
    proof -
      have "(2::real) ^ (52 - e) * 2 ^ (e + 1023) = 2 ^ 1075"
        using True by (simp flip: power_add)
      then show ?thesis by (simp add: mult.assoc)
    qed
    note eq = this
    have pk: "float64_val (f64_pack (x < 0) (e + 1023) f) =
        (if x < 0 then -1 else 1) * real (2 ^ 52 + f) * 2 ^ (e + 1023) / 2 ^ 1075"
      by (rule float64_val_pack) (use True f in simp_all)
    have "float64_val (float64_of_int x) =
        (if x < 0 then -1 else 1) * (real (m * 2 ^ (52 - e)) * 2 ^ (e + 1023)) / 2 ^ 1075"
      unfolding conv pk mf by (simp only: mult.assoc)
    also have "\<dots> = (if x < 0 then -1 else 1) * (real m * 2 ^ 1075) / 2 ^ 1075"
      by (simp only: eq)
    also have "\<dots> = of_int x" by (simp add: sgn)
    finally show ?thesis .
  next
    case False
    have m53: "m = 2 ^ 53"
    proof -
      have "(2::nat) ^ 53 \<le> 2 ^ e" using False by (intro power_increasing) simp_all
      with b(1) mle show ?thesis by simp
    qed
    have "53 < Suc e"
      by (rule nat_power_less_imp_less [of 2]) (use b(2) m53 in simp_all)
    moreover have "e < 54"
      by (rule nat_power_less_imp_less [of 2]) (use b(1) m53 in simp_all)
    ultimately have e53: "e = 53" by simp
    have conv: "float64_of_int x = f64_pack (x < 0) (53 + 1023) 0"
      using \<open>x \<noteq> 0\<close> e53 m53 unfolding e_def m_def by (simp add: float64_of_int_def Let_def)
    show ?thesis unfolding conv sgn m53 by (simp add: float64_val_pack)
  qed
qed

theorem float64_of_int_exact_witness:
  "\<bar>-7 :: int\<bar> \<le> 2 ^ 53 \<and> float64_val (float64_of_int (-7)) = -7"
  using float64_of_int_exact [of "-7"] by simp

end
