(* ===== verification/Mapper.thy ===== *)
theory Mapper
  imports Extractor Float64
begin

text \<open>
  The result mapper of \<open>runQuery\<close> (src/main.go, lines 30--35 and 101--111):
  the backend's reply, a list of \<open>timeSerie\<close> values (a target and a list of
  integer datapoints), becomes a list of prompb time series, one per backend
  series and in the same order, each with the four labels \<open>__name__\<close>,
  \<open>functionName\<close>, \<open>target\<close>, \<open>type\<close> and one sample per datapoint.
  A datapoint is indexed \<open>datapoint[0]\<close> and \<open>datapoint[1]\<close> without a
  length check: a datapoint with fewer than two numbers panics.
  Go's \<open>int\<close> is 64 bits wide on the platforms the adapter is built for.
\<close>

subsection \<open>Data\<close>

record timeSerie =
  Target :: string
  Datapoints :: "int64 list list"

type_synonym lambdaResult = "timeSerie list"

record Label =
  label_name :: string
  label_value :: string

record Sample =
  sample_value :: float64
  sample_timestamp :: int64

record TimeSeries =
  ts_labels :: "Label list"
  ts_samples :: "Sample list"

definition index_panic :: go_error where
  "index_panic = GoPanic ''runtime error: index out of range''"

subsection \<open>Operations\<close>

text \<open>
  \<open>&prompb.Sample{Value: float64(datapoint[0]), Timestamp: int64(datapoint[1])}\<close>;
  the operands are evaluated left to right, so a short slice fails at index 0
  or 1 with the same run-time panic.
\<close>

fun map_datapoint :: "int64 list \<Rightarrow> go_error + Sample" where
  "map_datapoint (v # t # _) =
     Inr \<lparr>sample_value = float64_of_int (sint v), sample_timestamp = t\<rparr>"
| "map_datapoint _ = Inl index_panic"

definition serie_labels :: "query_params \<Rightarrow> string \<Rightarrow> Label list" where
  "serie_labels p target =
     [\<lparr>label_name = ''__name__'', label_value = metricName p\<rparr>,
      \<lparr>label_name = ''functionName'', label_value = functionName p\<rparr>,
      \<lparr>label_name = ''target'', label_value = target\<rparr>,
      \<lparr>label_name = ''type'', label_value = paramType p\<rparr>]"

text \<open>One iteration of the outer loop: labels first, then the inner loop over datapoints.\<close>

definition map_serie :: "query_params \<Rightarrow> timeSerie \<Rightarrow> go_error + TimeSeries" where
  "map_serie p serie =
     (case map_or_fail map_datapoint (Datapoints serie) of
        Inl e \<Rightarrow> Inl e
      | Inr samples \<Rightarrow> Inr \<lparr>ts_labels = serie_labels p (Target serie), ts_samples = samples\<rparr>)"

definition map_result :: "query_params \<Rightarrow> lambdaResult \<Rightarrow> go_error + TimeSeries list" where
  "map_result p series = map_or_fail (map_serie p) series"

subsection \<open>Reference specification\<close>

text \<open>The spec's mapping, for well-formed datapoints \<open>[value, timestamp]\<close>.\<close>

definition sample_spec :: "int64 list \<Rightarrow> Sample" where
  "sample_spec dp = \<lparr>sample_value = float64_of_int (sint (dp ! 0)), sample_timestamp = dp ! 1\<rparr>"

definition serie_spec :: "query_params \<Rightarrow> timeSerie \<Rightarrow> TimeSeries" where
  "serie_spec p s = \<lparr>ts_labels = serie_labels p (Target s), ts_samples = map sample_spec (Datapoints s)\<rparr>"

definition wf_datapoints :: "lambdaResult \<Rightarrow> bool" where
  "wf_datapoints series \<longleftrightarrow> (\<forall>s\<in>set series. \<forall>dp\<in>set (Datapoints s). 2 \<le> length dp)"

subsection \<open>Lemmas\<close>

lemma map_datapoint_wf: "2 \<le> length dp \<Longrightarrow> map_datapoint dp = Inr (sample_spec dp)"
  by (cases dp rule: map_datapoint.cases) (auto simp: sample_spec_def)

lemma map_datapoint_short: "length dp < 2 \<Longrightarrow> map_datapoint dp = Inl index_panic"
  by (cases dp rule: map_datapoint.cases) auto

lemma map_serie_wf:
  assumes "\<forall>dp\<in>set (Datapoints s). 2 \<le> length dp"
  shows "map_serie p s = Inr (serie_spec p s)"
proof -
  have "map_or_fail map_datapoint (Datapoints s) = Inr (map sample_spec (Datapoints s))"
    using assms by (intro map_or_fail_Inr) (simp add: map_datapoint_wf)
  then show ?thesis by (simp add: map_serie_def serie_spec_def)
qed

lemma map_datapoint_Inl: "map_datapoint dp = Inl e \<Longrightarrow> e = index_panic"
  by (cases dp rule: map_datapoint.cases) auto

lemma map_serie_Inl: "map_serie p s = Inl e \<Longrightarrow> e = index_panic"
  unfolding map_serie_def
  by (auto split: sum.splits elim: map_or_fail_Inl_prop dest: map_datapoint_Inl)

lemma map_serie_Inr:
  "map_serie p s = Inr t \<Longrightarrow>
   ts_labels t = serie_labels p (Target s) \<and> length (ts_samples t) = length (Datapoints s)"
  by (auto simp: map_serie_def split: sum.splits dest: map_or_fail_Inr_length)

lemma map_result_spec_eq:
  "wf_datapoints series \<Longrightarrow> map_result p series = Inr (map (serie_spec p) series)"
  unfolding wf_datapoints_def map_result_def
  by (rule map_or_fail_Inr) (simp add: map_serie_wf)

subsection \<open>Properties\<close>

text \<open>
  C6: for a backend reply whose datapoints all have a value and a timestamp,
  the mapper returns one time series per backend series, in order, labelled
  with the query's metric name, function name and type and the series'
  target, with one sample per datapoint, in order, whose timestamp is the
  datapoint's and whose value is the datapoint's value converted to a double.
\<close>

theorem map_result_wf:
  "wf_datapoints series \<Longrightarrow> map_result p series = Inr (map (serie_spec p) series)"
  by (rule map_result_spec_eq)

theorem map_result_wf_witness:
  "wf_datapoints [\<lparr>Target = ''t1'', Datapoints = [[7, 1000], [9, 4000]]\<rparr>] \<and>
   map_result \<lparr>metricName = ''foo'', functionName = ''f1'', paramTarget = ''t1'', paramType = ''count''\<rparr>
     [\<lparr>Target = ''t1'', Datapoints = [[7, 1000], [9, 4000]]\<rparr>] =
   Inr [\<lparr>ts_labels = [\<lparr>label_name = ''__name__'', label_value = ''foo''\<rparr>,
                      \<lparr>label_name = ''functionName'', label_value = ''f1''\<rparr>,
                      \<lparr>label_name = ''target'', label_value = ''t1''\<rparr>,
                      \<lparr>label_name = ''type'', label_value = ''count''\<rparr>],
        ts_samples = [\<lparr>sample_value = float64_of_int 7, sample_timestamp = 1000\<rparr>,
                      \<lparr>sample_value = float64_of_int 9, sample_timestamp = 4000\<rparr>]\<rparr>]"
proof -
  have wf: "wf_datapoints [\<lparr>Target = ''t1'', Datapoints = [[7, 1000], [9, 4000]]\<rparr>]"
    by (simp add: wf_datapoints_def)
  show ?thesis
    using map_result_wf [OF wf] wf
    by (simp add: serie_spec_def serie_labels_def sample_spec_def)
qed

text \<open>
  C10: a backend reply with a datapoint of fewer than two numbers (\<open>[]\<close>,
  \<open>null\<close> or \<open>[v]\<close>) makes the mapper panic with an index-out-of-range
  error instead of returning an error: the handler goroutine is unwound and
  the client gets no HTTP response.
\<close>

theorem map_result_short_datapoint_panics:
  "\<exists>s\<in>set series. \<exists>dp\<in>set (Datapoints s). length dp < 2 \<Longrightarrow>
   map_result p series = Inl index_panic"
proof -
  assume "\<exists>s\<in>set series. \<exists>dp\<in>set (Datapoints s). length dp < 2"
  then obtain s dp where s: "s \<in> set series" and dp: "dp \<in> set (Datapoints s)" "length dp < 2"
    by blast
  have "\<exists>e. map_or_fail map_datapoint (Datapoints s) = Inl e"
    using dp by (intro map_or_fail_some_Inl) (auto dest: map_datapoint_short)
  then have "\<exists>e. map_serie p s = Inl e" by (auto simp: map_serie_def)
  with s have "\<exists>e. map_result p series = Inl e"
    unfolding map_result_def by (intro map_or_fail_some_Inl) blast
  then obtain e where r: "map_result p series = Inl e" by blast
  have "e = index_panic"
    using r unfolding map_result_def by (rule map_or_fail_Inl_prop) (rule map_serie_Inl)
  with r show ?thesis by simp
qed

theorem map_result_short_datapoint_panics_witness:
  "(\<exists>s\<in>set [\<lparr>Target = ''t1'', Datapoints = [[7, 1000], [9]]\<rparr>]. \<exists>dp\<in>set (Datapoints s). length dp < 2) \<and>
   map_result params_init [\<lparr>Target = ''t1'', Datapoints = [[7, 1000], [9]]\<rparr>] = Inl index_panic"
proof -
  have h: "\<exists>s\<in>set [\<lparr>Target = ''t1'', Datapoints = [[7, 1000], [9::int64]]\<rparr>]. \<exists>dp\<in>set (Datapoints s). length dp < 2"
    by simp
  show ?thesis using map_result_short_datapoint_panics [OF h] h by simp
qed



end
