(* ===== verification/RunQuery.thy ===== *)
theory RunQuery
  imports Extractor GoTime Payload Mapper
begin

text \<open>
  \<open>runQuery\<close> (src/main.go, lines 37--113), the backend invoker adapter:
  the query's time bounds are converted and formatted, the parameters are
  extracted from the matchers, the JSON payload is built, the Lambda function
  is invoked synchronously, its reply is decoded and mapped. The AWS Lambda
  client and encoding/json's decoder are libraries the code only calls; they
  are parameters of the model (a record of capabilities), so every lemma holds
  for any behaviour of them. The call to the backend is recorded, so that the
  lemmas can say when the backend is and is not invoked.
\<close>

subsection \<open>Capabilities\<close>

text \<open>\<open>lambda.InvokeOutput\<close>: the fields the code could read.\<close>

record invoke_output =
  StatusCode :: int
  FunctionError :: "string option"
  Payload :: bytes

text \<open>One \<open>client.Invoke(input)\<close> call: region, function name, payload.\<close>

record invocation =
  inv_region :: string
  inv_function :: string
  inv_payload :: bytes

record backend =
  lambda_invoke :: "string \<Rightarrow> string \<Rightarrow> bytes \<Rightarrow> go_error + invoke_output"
  json_unmarshal :: "bytes \<Rightarrow> go_error + lambdaResult"
  zone_offset :: int

subsection \<open>runQuery\<close>

definition query_payload :: "'a backend_scheme \<Rightarrow> Query \<Rightarrow> query_params \<Rightarrow> bytes" where
  "query_payload env q p =
     lambda_payload (rfc3339 (zone_offset env) (query_time (StartTimestampMs q)))
                    (rfc3339 (zone_offset env) (query_time (EndTimestampMs q)))
                    (paramTarget p) (paramType p)"

text \<open>
  After a successful \<open>Invoke\<close>, \<open>if *resp.StatusCode != 200 { return nil, err }\<close>
  returns the \<open>err\<close> of the call, which is \<open>nil\<close>: the caller sees no error
  and no time series. \<open>resp.FunctionError\<close> is never read.
\<close>

definition runQuery :: "'a backend_scheme \<Rightarrow> string \<Rightarrow> Query \<Rightarrow> invocation list \<times> (go_error + TimeSeries list)" where
  "runQuery env region q =
     (case extract_params (Matchers q) of
        Inl e \<Rightarrow> ([], Inl e)
      | Inr p \<Rightarrow>
          let payload = query_payload env q p;
              call = \<lparr>inv_region = region, inv_function = functionName p, inv_payload = payload\<rparr>
          in case lambda_invoke env region (functionName p) payload of
               Inl e \<Rightarrow> ([call], Inl e)
             | Inr resp \<Rightarrow>
                 if StatusCode resp \<noteq> 200 then ([call], Inr [])
                 else case json_unmarshal env (Payload resp) of
                        Inl e \<Rightarrow> ([call], Inl e)
                      | Inr res \<Rightarrow> ([call], map_result p res))"

subsection \<open>Lemmas\<close>

lemma runQuery_calls:
  "fst (runQuery env region q) =
     (case extract_params (Matchers q) of Inl _ \<Rightarrow> []
      | Inr p \<Rightarrow> [\<lparr>inv_region = region, inv_function = functionName p,
                   inv_payload = query_payload env q p\<rparr>])"
  by (simp add: runQuery_def Let_def split: sum.splits)

lemma runQuery_no_function:
  "matcher_value ''functionName'' (Matchers q) = '''' \<Longrightarrow>
   runQuery env region q = ([], Inl (GoErr ''no function name specified''))"
  by (simp add: runQuery_def extract_params_cases)

lemma runQuery_invoked:
  "matcher_value ''functionName'' (Matchers q) \<noteq> '''' \<Longrightarrow>
   fst (runQuery env region q) =
     [\<lparr>inv_region = region, inv_function = matcher_value ''functionName'' (Matchers q),
       inv_payload = query_payload env q (params_spec (Matchers q))\<rparr>]"
  by (simp add: runQuery_calls extract_params_cases params_spec_def)

lemma runQuery_status:
  assumes "matcher_value ''functionName'' (Matchers q) \<noteq> ''''"
    and "lambda_invoke env region (matcher_value ''functionName'' (Matchers q))
           (query_payload env q (params_spec (Matchers q))) = Inr resp"
  shows "snd (runQuery env region q) =
     (if StatusCode resp \<noteq> 200 then Inr []
      else case json_unmarshal env (Payload resp) of
             Inl e \<Rightarrow> Inl e
           | Inr res \<Rightarrow> map_result (params_spec (Matchers q)) res)"
  using assms
  by (simp add: runQuery_def extract_params_cases params_spec_def Let_def split: sum.splits)

lemma extract_params_Inr_function: "extract_params ms = Inr p \<Longrightarrow> functionName p \<noteq> ''''"
  by (simp add: extract_params_def Let_def split: if_splits)

lemma runQuery_calls_ok:
  "runQuery env region q = (new, r) \<Longrightarrow>
   length new \<le> 1 \<and> (\<forall>c\<in>set new. inv_region c = region \<and> inv_function c \<noteq> '''')"
  using runQuery_calls [of env region q]
  by (auto split: sum.splits dest: extract_params_Inr_function)

lemma runQuery_Inr_invoked: "runQuery env region q = (new, Inr ts) \<Longrightarrow> new \<noteq> []"
  by (auto simp: runQuery_def Let_def split: sum.splits if_splits)

subsection \<open>Properties\<close>

text \<open>
  The payload of the spec's end-to-end scenario (query range
  \<open>[1000, 5000]\<close> ms, target \<open>t1\<close>, type \<open>count\<close>, a process in UTC) is
  exactly the JSON object with the two RFC3339 bounds and the two targets.
\<close>

theorem query_payload_scenario:
  \<open>zone_offset env = 0 \<Longrightarrow>
   query_payload env \<lparr>StartTimestampMs = 1000, EndTimestampMs = 5000, Matchers = ms\<rparr>
     \<lparr>metricName = ''foo'', functionName = ''f1'', paramTarget = ''t1'', paramType = ''count''\<rparr> =
   ''{"range":{"from":"1970-01-01T00:00:01Z","to":"1970-01-01T00:00:05Z"},"targets":{"target":"t1","type":"count"}}''\<close>
  by (simp add: query_payload_def) code_simp

theorem query_payload_scenario_witness:
  \<open>zone_offset \<lparr>lambda_invoke = \<lambda>_ _ _. Inl (GoErr ''unused''), json_unmarshal = \<lambda>_. Inr [], zone_offset = 0\<rparr> = 0 \<and>
   query_payload \<lparr>lambda_invoke = \<lambda>_ _ _. Inl (GoErr ''unused''), json_unmarshal = \<lambda>_. Inr [], zone_offset = 0\<rparr>
     \<lparr>StartTimestampMs = 1000, EndTimestampMs = 5000, Matchers = []\<rparr>
     \<lparr>metricName = ''foo'', functionName = ''f1'', paramTarget = ''t1'', paramType = ''count''\<rparr> =
   ''{"range":{"from":"1970-01-01T00:00:01Z","to":"1970-01-01T00:00:05Z"},"targets":{"target":"t1","type":"count"}}''\<close>
  using query_payload_scenario [of "\<lparr>lambda_invoke = \<lambda>_ _ _. Inl (GoErr ''unused''),
      json_unmarshal = \<lambda>_. Inr [], zone_offset = 0\<rparr>" "[]"]
  by simp

end
