(* ===== verification/Handler.thy ===== *)
theory Handler
  imports RunQuery
begin

text \<open>
  The \<open>/read\<close> handler of \<open>main\<close> (src/main.go, lines 156--202) and the
  parts of net/http it drives. The response writer is explicit state: the
  header map, the status line once written (a second \<open>WriteHeader\<close> is
  ignored, as net/http ignores a superfluous one), the header as it was when
  the status went out, the body, and whether the client is still connected.
  \<open>http.Error\<close> sets two headers, writes the status and the message with a
  newline. snappy and protobuf are libraries the handler only calls; with the
  Lambda capabilities they form the \<open>server\<close> record the handler runs in
  (Snappy and Prompb give their concrete models). A panic in \<open>runQuery\<close>,
  or in \<open>snappy.Encode\<close> on an input too large for the block format,
  unwinds the handler; net/http recovers it and closes the connection
  without a response, which the model records as \<open>w_aborted\<close>.
\<close>

subsection \<open>Wire messages\<close>

record ReadRequest =
  Queries :: "Query list"

record QueryResult =
  Timeseries :: "TimeSeries list"

record ReadResponse =
  Results :: "QueryResult list"

subsection \<open>The response writer\<close>

record conn =
  w_header :: "string \<Rightarrow> string option"
  w_status :: "nat option"
  w_sent_header :: "string \<Rightarrow> string option"
  w_body :: bytes
  w_connected :: bool
  w_aborted :: bool

definition fresh_conn :: "bool \<Rightarrow> conn" where
  "fresh_conn c =
     \<lparr>w_header = Map.empty, w_status = None, w_sent_header = Map.empty, w_body = [],
      w_connected = c, w_aborted = False\<rparr>"

definition set_header :: "string \<Rightarrow> string \<Rightarrow> conn \<Rightarrow> conn" where
  "set_header k v w = w\<lparr>w_header := (w_header w)(k \<mapsto> v)\<rparr>"

definition write_header :: "nat \<Rightarrow> conn \<Rightarrow> conn" where
  "write_header code w =
     (if w_status w = None then w\<lparr>w_status := Some code, w_sent_header := w_header w\<rparr> else w)"

definition write_error :: go_error where
  "write_error = GoErr ''write: connection closed''"

text \<open>\<open>w.Write(data)\<close>: an implicit \<open>WriteHeader(200)\<close>, then the bytes, or an error.\<close>

definition conn_write :: "bytes \<Rightarrow> conn \<Rightarrow> conn \<times> go_error option" where
  "conn_write data w =
     (let w1 = write_header 200 w
      in if w_connected w1 then (w1\<lparr>w_body := w_body w1 @ data\<rparr>, None) else (w1, Some write_error))"

definition newline :: char where
  "newline = char_of (10 :: nat)"

definition http_error :: "string \<Rightarrow> nat \<Rightarrow> conn \<Rightarrow> conn" where
  "http_error msg code w =
     fst (conn_write (msg @ [newline])
       (write_header code
         (set_header ''X-Content-Type-Options'' ''nosniff''
           (set_header ''Content-Type'' ''text/plain; charset=utf-8'' w))))"

subsection \<open>The server\<close>

record server = backend +
  snappy_decode :: "bytes \<Rightarrow> go_error + bytes"
  proto_unmarshal :: "bytes \<Rightarrow> go_error + ReadRequest"
  proto_marshal :: "ReadResponse \<Rightarrow> go_error + bytes"
  snappy_encode :: "bytes \<Rightarrow> go_error + bytes"

definition single_query_msg :: string where
  "single_query_msg = ''Can only handle one query.''"

subsection \<open>The spec's end-to-end scenario\<close>

text \<open>
  A server whose codecs are the identity, whose request holds one query with
  the given matchers over \<open>[1000, 5000]\<close> ms, and whose Lambda function
  answers with status \<open>st\<close> and the series \<open>t1\<close>, \<open>[[7,1000],[9,4000]]\<close>.
\<close>

definition scenario_matchers :: "LabelMatcher list" where
  "scenario_matchers =
     [\<lparr>lm_type = EQ, lm_name = ''__name__'', lm_value = ''foo''\<rparr>,
      \<lparr>lm_type = EQ, lm_name = ''functionName'', lm_value = ''f1''\<rparr>,
      \<lparr>lm_type = EQ, lm_name = ''target'', lm_value = ''t1''\<rparr>,
      \<lparr>lm_type = EQ, lm_name = ''type'', lm_value = ''count''\<rparr>]"

definition scenario_query :: "LabelMatcher list \<Rightarrow> Query" where
  "scenario_query ms = \<lparr>StartTimestampMs = 1000, EndTimestampMs = 5000, Matchers = ms\<rparr>"

definition scenario_server :: "LabelMatcher list \<Rightarrow> int \<Rightarrow> server" where
  "scenario_server ms st =
     \<lparr>lambda_invoke = \<lambda>_ _ _. Inr \<lparr>StatusCode = st, FunctionError = None, Payload = ''reply''\<rparr>,
      json_unmarshal = \<lambda>_. Inr [\<lparr>Target = ''t1'', Datapoints = [[7, 1000], [9, 4000]]\<rparr>],
      zone_offset = 0,
      snappy_decode = \<lambda>b. Inr b,
      proto_unmarshal = \<lambda>_. Inr \<lparr>Queries = [scenario_query ms]\<rparr>,
      proto_marshal = \<lambda>_. Inr ''marshalled'',
      snappy_encode = Inr\<rparr>"

text \<open>Lines 180--201: run the query, marshal, compress and write the response.\<close>

definition respond :: "server \<Rightarrow> string \<Rightarrow> Query \<Rightarrow> conn \<Rightarrow> conn \<times> invocation list" where
  "respond env region q w =
     (let (calls, r) = runQuery env region q
      in case r of
           Inl (GoPanic _) \<Rightarrow> (w\<lparr>w_aborted := True\<rparr>, calls)
         | Inl (GoErr m) \<Rightarrow> (http_error m 400 w, calls)
         | Inr ts \<Rightarrow>
             (case proto_marshal env \<lparr>Results = [\<lparr>Timeseries = ts\<rparr>]\<rparr> of
                Inl e \<Rightarrow> (http_error (error_text e) 500 w, calls)
              | Inr data \<Rightarrow>
                  let w0 = set_header ''Content-Type'' ''application/x-protobuf'' w
                  in case snappy_encode env data of
                       Inl _ \<Rightarrow> (w0\<lparr>w_aborted := True\<rparr>, calls)
                     | Inr enc \<Rightarrow>
                         let (w1, err) = conn_write enc w0
                         in case err of
                              None \<Rightarrow> (w1, calls)
                            | Some e \<Rightarrow> (http_error (error_text e) 500 w1, calls)))"

text \<open>Lines 157--178: read the body, decompress, unmarshal, check the query count.\<close>

definition serve_read :: "server \<Rightarrow> string \<Rightarrow> go_error + bytes \<Rightarrow> conn \<Rightarrow> conn \<times> invocation list" where
  "serve_read env region body w =
     (case body of
        Inl e \<Rightarrow> (http_error (error_text e) 400 w, [])
      | Inr compressed \<Rightarrow>
          (case snappy_decode env compressed of
             Inl e \<Rightarrow> (http_error (error_text e) 400 w, [])
           | Inr reqBuf \<Rightarrow>
               (case proto_unmarshal env reqBuf of
                  Inl e \<Rightarrow> (http_error (error_text e) 400 w, [])
                | Inr req \<Rightarrow>
                    if length (Queries req) \<noteq> 1 then (http_error single_query_msg 400 w, [])
                    else respond env region (Queries req ! 0) w)))"

subsection \<open>Lemmas\<close>

lemma http_error_fresh:
  "http_error msg code (fresh_conn c) =
     \<lparr>w_header = [''Content-Type'' \<mapsto> ''text/plain; charset=utf-8'',
                  ''X-Content-Type-Options'' \<mapsto> ''nosniff''],
      w_status = Some code,
      w_sent_header = [''Content-Type'' \<mapsto> ''text/plain; charset=utf-8'',
                       ''X-Content-Type-Options'' \<mapsto> ''nosniff''],
      w_body = (if c then msg @ [newline] else []),
      w_connected = c, w_aborted = False\<rparr>"
  by (simp add: http_error_def conn_write_def write_header_def set_header_def fresh_conn_def Let_def)

lemma write_header_status: "w_status (write_header code w) \<noteq> None"
  by (simp add: write_header_def)

lemma serve_read_decoded:
  assumes "snappy_decode env compressed = Inr reqBuf" "proto_unmarshal env reqBuf = Inr req"
  shows "serve_read env region (Inr compressed) w =
           (if length (Queries req) \<noteq> 1 then (http_error single_query_msg 400 w, [])
            else respond env region (Queries req ! 0) w)"
  using assms by (simp add: serve_read_def)

lemma respond_ok:
  assumes "snd (runQuery env region q) = Inr ts"
    and "proto_marshal env \<lparr>Results = [\<lparr>Timeseries = ts\<rparr>]\<rparr> = Inr data"
    and "snappy_encode env data = Inr enc"
  shows "respond env region q (fresh_conn True) =
     (\<lparr>w_header = [''Content-Type'' \<mapsto> ''application/x-protobuf''], w_status = Some 200,
       w_sent_header = [''Content-Type'' \<mapsto> ''application/x-protobuf''],
       w_body = enc, w_connected = True, w_aborted = False\<rparr>,
      fst (runQuery env region q))"
  using assms
  by (simp add: respond_def split_beta conn_write_def write_header_def set_header_def fresh_conn_def Let_def)

lemma respond_err:
  "snd (runQuery env region q) = Inl (GoErr m) \<Longrightarrow>
   respond env region q w = (http_error m 400 w, fst (runQuery env region q))"
  by (simp add: respond_def split_beta)

lemma respond_calls: "snd (respond env region q w) = fst (runQuery env region q)"
  by (simp add: respond_def split_beta Let_def split: sum.split go_error.split option.split)

lemma serve_read_calls:
  "length (snd (serve_read env region body w)) \<le> 1 \<and>
   (\<forall>c\<in>set (snd (serve_read env region body w)). inv_region c = region \<and> inv_function c \<noteq> '''')"
  using runQuery_calls_ok [OF surjective_pairing]
  by (auto simp: serve_read_def respond_calls split: sum.split)

subsection \<open>Properties\<close>

text \<open>
  C1: a request whose envelope holds no query or more than one is answered
  with status 400 and the body \<open>Can only handle one query.\<close> and a newline,
  and the backend is not invoked.
\<close>

theorem serve_read_query_count:
  assumes "snappy_decode env body = Inr buf" and "proto_unmarshal env buf = Inr req"
    and "length (Queries req) \<noteq> 1"
  shows "w_status (fst (serve_read env region (Inr body) (fresh_conn True))) = Some 400 \<and>
         w_body (fst (serve_read env region (Inr body) (fresh_conn True))) =
           ''Can only handle one query.'' @ [newline] \<and>
         snd (serve_read env region (Inr body) (fresh_conn True)) = []"
  using serve_read_decoded [OF assms(1,2)] assms(3)
  by (simp add: http_error_fresh single_query_msg_def)

theorem serve_read_query_count_witness:
  "w_status (fst (serve_read
      \<lparr>lambda_invoke = \<lambda>_ _ _. Inl (GoErr ''unused''), json_unmarshal = \<lambda>_. Inr [], zone_offset = 0,
       snappy_decode = \<lambda>b. Inr b, proto_unmarshal = \<lambda>_. Inr \<lparr>Queries = []\<rparr>,
       proto_marshal = \<lambda>_. Inr [], snappy_encode = Inr\<rparr> ''us-east-1'' (Inr ''x'') (fresh_conn True)))
   = Some 400"
proof -
  let ?env = "\<lparr>lambda_invoke = \<lambda>_ _ _. Inl (GoErr ''unused''), json_unmarshal = \<lambda>_. Inr [],
       zone_offset = 0, snappy_decode = \<lambda>b. Inr b, proto_unmarshal = \<lambda>_. Inr \<lparr>Queries = []\<rparr>,
       proto_marshal = \<lambda>_. Inr [], snappy_encode = Inr\<rparr> :: server"
  have "snappy_decode ?env ''x'' = Inr ''x''" "proto_unmarshal ?env ''x'' = Inr \<lparr>Queries = []\<rparr>"
    "length (Queries \<lparr>Queries = ([] :: Query list)\<rparr>) \<noteq> 1"
    by simp_all
  from serve_read_query_count [OF this, of "''us-east-1''"] show ?thesis by simp
qed

text \<open>
  C2: a single query whose matchers give no (or an empty) \<open>functionName\<close>
  is answered with status 400 and the body \<open>no function name specified\<close>,
  and the backend is not invoked.
\<close>

theorem serve_read_no_function:
  assumes "snappy_decode env body = Inr buf" and "proto_unmarshal env buf = Inr req"
    and "Queries req = [q]" and "matcher_value ''functionName'' (Matchers q) = ''''"
  shows "w_status (fst (serve_read env region (Inr body) (fresh_conn True))) = Some 400 \<and>
         w_body (fst (serve_read env region (Inr body) (fresh_conn True))) =
           ''no function name specified'' @ [newline] \<and>
         snd (serve_read env region (Inr body) (fresh_conn True)) = []"
  using serve_read_decoded [OF assms(1,2)] assms(3) respond_err [of env region q]
    runQuery_no_function [OF assms(4), of env region]
  by (simp add: http_error_fresh)

text \<open>
  C3: when the Lambda invocation succeeds with a status other than 200, the
  handler answers 200 with an empty result set (one QueryResult without time
  series), because \<open>runQuery\<close> returns the nil error of the call; the spec
  requires the request to fail.
\<close>

theorem serve_read_non200_status:
  assumes "snappy_decode env body = Inr buf" and "proto_unmarshal env buf = Inr req"
    and "Queries req = [q]" and "matcher_value ''functionName'' (Matchers q) \<noteq> ''''"
    and "lambda_invoke env region (matcher_value ''functionName'' (Matchers q))
           (query_payload env q (params_spec (Matchers q))) = Inr resp"
    and "StatusCode resp \<noteq> 200"
    and "proto_marshal env \<lparr>Results = [\<lparr>Timeseries = []\<rparr>]\<rparr> = Inr data"
    and "snappy_encode env data = Inr enc"
  shows "w_status (fst (serve_read env region (Inr body) (fresh_conn True))) = Some 200 \<and>
         w_body (fst (serve_read env region (Inr body) (fresh_conn True))) = enc \<and>
         length (snd (serve_read env region (Inr body) (fresh_conn True))) = 1"
proof -
  have r: "snd (runQuery env region q) = Inr []"
    using runQuery_status [OF assms(4,5)] assms(6) by simp
  show ?thesis
    using serve_read_decoded [OF assms(1,2)] assms(3) respond_ok [OF r assms(7,8)]
      runQuery_invoked [OF assms(4), of env region]
    by simp
qed

text \<open>
  C4: the successful path. When the single query names a function, the
  invocation returns status 200 with a reply that decodes to well-formed
  series, and marshalling succeeds, the handler invokes the backend exactly
  once, with the query's region, function name and payload, and answers 200
  with content type \<open>application/x-protobuf\<close> and the compressed marshalled
  ReadResponse holding one QueryResult with the mapped series.
\<close>

theorem serve_read_success:
  assumes "snappy_decode env body = Inr buf" and "proto_unmarshal env buf = Inr req"
    and "Queries req = [q]" and "matcher_value ''functionName'' (Matchers q) \<noteq> ''''"
    and "lambda_invoke env region (matcher_value ''functionName'' (Matchers q))
           (query_payload env q (params_spec (Matchers q))) = Inr resp"
    and "StatusCode resp = 200" and "json_unmarshal env (Payload resp) = Inr res"
    and "wf_datapoints res"
    and "proto_marshal env
           \<lparr>Results = [\<lparr>Timeseries = map (serie_spec (params_spec (Matchers q))) res\<rparr>]\<rparr> = Inr data"
    and "snappy_encode env data = Inr enc"
  shows "serve_read env region (Inr body) (fresh_conn True) =
     (\<lparr>w_header = [''Content-Type'' \<mapsto> ''application/x-protobuf''], w_status = Some 200,
       w_sent_header = [''Content-Type'' \<mapsto> ''application/x-protobuf''],
       w_body = enc, w_connected = True, w_aborted = False\<rparr>,
      [\<lparr>inv_region = region, inv_function = matcher_value ''functionName'' (Matchers q),
        inv_payload = query_payload env q (params_spec (Matchers q))\<rparr>])"
proof -
  have r: "snd (runQuery env region q) = Inr (map (serie_spec (params_spec (Matchers q))) res)"
    using runQuery_status [OF assms(4,5)] assms(6,7) map_result_spec_eq [OF assms(8)] by simp
  show ?thesis
    using serve_read_decoded [OF assms(1,2)] assms(3) respond_ok [OF r assms(9,10)]
      runQuery_invoked [OF assms(4), of env region]
    by simp
qed

theorem serve_read_no_function_witness:
  "w_status (fst (serve_read (scenario_server [] 200) ''us-east-1'' (Inr ''req'') (fresh_conn True))) = Some 400 \<and>
   snd (serve_read (scenario_server [] 200) ''us-east-1'' (Inr ''req'') (fresh_conn True)) = []"
proof -
  have h: "snappy_decode (scenario_server [] 200) ''req'' = Inr ''req''"
    "proto_unmarshal (scenario_server [] 200) ''req'' = Inr \<lparr>Queries = [scenario_query []]\<rparr>"
    "Queries \<lparr>Queries = [scenario_query []]\<rparr> = [scenario_query []]"
    "matcher_value ''functionName'' (Matchers (scenario_query [])) = ''''"
    by (simp_all add: scenario_server_def scenario_query_def matcher_value_def)
  from serve_read_no_function [OF h, of "''us-east-1''"] show ?thesis by simp
qed

theorem serve_read_non200_status_witness:
  "w_status (fst (serve_read (scenario_server scenario_matchers 500) ''us-east-1'' (Inr ''req'')
      (fresh_conn True))) = Some 200 \<and>
   w_body (fst (serve_read (scenario_server scenario_matchers 500) ''us-east-1'' (Inr ''req'')
      (fresh_conn True))) = ''marshalled''"
proof -
  let ?env = "scenario_server scenario_matchers 500" and ?q = "scenario_query scenario_matchers"
  have h: "snappy_decode ?env ''req'' = Inr ''req''"
    "proto_unmarshal ?env ''req'' = Inr \<lparr>Queries = [?q]\<rparr>"
    "Queries \<lparr>Queries = [?q]\<rparr> = [?q]"
    "matcher_value ''functionName'' (Matchers ?q) \<noteq> ''''"
    "lambda_invoke ?env ''us-east-1'' (matcher_value ''functionName'' (Matchers ?q))
       (query_payload ?env ?q (params_spec (Matchers ?q))) =
     Inr \<lparr>StatusCode = 500, FunctionError = None, Payload = ''reply''\<rparr>"
    "StatusCode \<lparr>StatusCode = (500::int), FunctionError = None, Payload = ''reply''\<rparr> \<noteq> 200"
    "proto_marshal ?env \<lparr>Results = [\<lparr>Timeseries = []\<rparr>]\<rparr> = Inr ''marshalled''"
    "snappy_encode ?env ''marshalled'' = Inr ''marshalled''"
    by (simp_all add: scenario_server_def scenario_query_def scenario_matchers_def matcher_value_def last_where_def)
  from serve_read_non200_status [OF h] show ?thesis by (simp add: scenario_server_def)
qed

theorem serve_read_success_witness:
  "serve_read (scenario_server scenario_matchers 200) ''us-east-1'' (Inr ''req'') (fresh_conn True) =
     (\<lparr>w_header = [''Content-Type'' \<mapsto> ''application/x-protobuf''], w_status = Some 200,
       w_sent_header = [''Content-Type'' \<mapsto> ''application/x-protobuf''],
       w_body = ''marshalled'', w_connected = True, w_aborted = False\<rparr>,
      [\<lparr>inv_region = ''us-east-1'', inv_function = ''f1'',
        inv_payload = query_payload (scenario_server scenario_matchers 200)
          (scenario_query scenario_matchers) (params_spec scenario_matchers)\<rparr>])"
proof -
  let ?env = "scenario_server scenario_matchers 200" and ?q = "scenario_query scenario_matchers"
  have h: "snappy_decode ?env ''req'' = Inr ''req''"
    "proto_unmarshal ?env ''req'' = Inr \<lparr>Queries = [?q]\<rparr>"
    "Queries \<lparr>Queries = [?q]\<rparr> = [?q]"
    "matcher_value ''functionName'' (Matchers ?q) \<noteq> ''''"
    "lambda_invoke ?env ''us-east-1'' (matcher_value ''functionName'' (Matchers ?q))
       (query_payload ?env ?q (params_spec (Matchers ?q))) =
     Inr \<lparr>StatusCode = 200, FunctionError = None, Payload = ''reply''\<rparr>"
    "StatusCode \<lparr>StatusCode = (200::int), FunctionError = None, Payload = ''reply''\<rparr> = 200"
    "json_unmarshal ?env (Payload \<lparr>StatusCode = (200::int), FunctionError = None, Payload = ''reply''\<rparr>) =
       Inr [\<lparr>Target = ''t1'', Datapoints = [[7, 1000], [9, 4000]]\<rparr>]"
    "wf_datapoints [\<lparr>Target = ''t1'', Datapoints = [[7, 1000], [9, 4000]]\<rparr>]"
    "proto_marshal ?env \<lparr>Results = [\<lparr>Timeseries = map (serie_spec (params_spec (Matchers ?q)))
       [\<lparr>Target = ''t1'', Datapoints = [[7, 1000], [9, 4000]]\<rparr>]\<rparr>]\<rparr> = Inr ''marshalled''"
    "snappy_encode ?env ''marshalled'' = Inr ''marshalled''"
    by (simp_all add: scenario_server_def scenario_query_def scenario_matchers_def matcher_value_def last_where_def
        wf_datapoints_def)
  have f: "matcher_value ''functionName'' scenario_matchers = ''f1''"
    by (simp add: scenario_query_def scenario_matchers_def matcher_value_def last_where_def)
  from serve_read_success [OF h] show ?thesis
    by (simp add: f scenario_query_def scenario_server_def)
qed

end
