(* ===== verification/HandlerSM.thy ===== *)
theory HandlerSM
  imports Handler
begin

text \<open>
  The \<open>/read\<close> handler as the state machine of the spec (4.5): Received,
  Decompressed, Decoded, Validated, Invoked, Encoded, then Responded, or
  Failed with a status code, or Aborted by a panic. Each rule of the
  inductive step relation is one \<open>if err != nil\<close> branch or one success of
  src/main.go, lines 157--201; the state carries the response writer and the
  backend invocations made so far. The lemmas show that the relation is
  deterministic, that every run ends in a terminal state after at most six
  steps, that its unique outcome is \<open>serve_read\<close> (the functional handler
  refines the machine), and the invariant that the backend is invoked at most
  once, only for a validated query with a non-empty function name.
\<close>

datatype stage =
    Received "go_error + bytes"
  | Decompressed bytes
  | Decoded ReadRequest
  | Validated Query
  | Invoked "TimeSeries list"
  | Encoded bytes
  | Responded
  | Failed nat string
  | Aborted

record hstate =
  hs_stage :: stage
  hs_conn :: conn
  hs_calls :: "invocation list"

fun terminal :: "stage \<Rightarrow> bool" where
  "terminal Responded = True"
| "terminal (Failed _ _) = True"
| "terminal Aborted = True"
| "terminal _ = False"

text \<open>Steps still to go from a stage on the success path (a termination measure).\<close>

fun stage_rank :: "stage \<Rightarrow> nat" where
  "stage_rank (Received _) = 6"
| "stage_rank (Decompressed _) = 5"
| "stage_rank (Decoded _) = 4"
| "stage_rank (Validated _) = 3"
| "stage_rank (Invoked _) = 2"
| "stage_rank (Encoded _) = 1"
| "stage_rank _ = 0"

definition fail_with :: "nat \<Rightarrow> string \<Rightarrow> conn \<Rightarrow> invocation list \<Rightarrow> hstate" where
  "fail_with code msg w cs = \<lparr>hs_stage = Failed code msg, hs_conn = http_error msg code w, hs_calls = cs\<rparr>"

inductive read_step :: "server \<Rightarrow> string \<Rightarrow> hstate \<Rightarrow> hstate \<Rightarrow> bool" for env region where
  body_err: "read_step env region \<lparr>hs_stage = Received (Inl e), hs_conn = w, hs_calls = cs\<rparr>
     (fail_with 400 (error_text e) w cs)"
| snappy_err: "snappy_decode env b = Inl e \<Longrightarrow>
     read_step env region \<lparr>hs_stage = Received (Inr b), hs_conn = w, hs_calls = cs\<rparr>
       (fail_with 400 (error_text e) w cs)"
| snappy_ok: "snappy_decode env b = Inr buf \<Longrightarrow>
     read_step env region \<lparr>hs_stage = Received (Inr b), hs_conn = w, hs_calls = cs\<rparr>
       \<lparr>hs_stage = Decompressed buf, hs_conn = w, hs_calls = cs\<rparr>"
| proto_err: "proto_unmarshal env buf = Inl e \<Longrightarrow>
     read_step env region \<lparr>hs_stage = Decompressed buf, hs_conn = w, hs_calls = cs\<rparr>
       (fail_with 400 (error_text e) w cs)"
| proto_ok: "proto_unmarshal env buf = Inr req \<Longrightarrow>
     read_step env region \<lparr>hs_stage = Decompressed buf, hs_conn = w, hs_calls = cs\<rparr>
       \<lparr>hs_stage = Decoded req, hs_conn = w, hs_calls = cs\<rparr>"
| count_err: "length (Queries req) \<noteq> 1 \<Longrightarrow>
     read_step env region \<lparr>hs_stage = Decoded req, hs_conn = w, hs_calls = cs\<rparr>
       (fail_with 400 single_query_msg w cs)"
| count_ok: "length (Queries req) = 1 \<Longrightarrow>
     read_step env region \<lparr>hs_stage = Decoded req, hs_conn = w, hs_calls = cs\<rparr>
       \<lparr>hs_stage = Validated (Queries req ! 0), hs_conn = w, hs_calls = cs\<rparr>"
| query_err: "runQuery env region q = (new, Inl (GoErr m)) \<Longrightarrow>
     read_step env region \<lparr>hs_stage = Validated q, hs_conn = w, hs_calls = cs\<rparr>
       (fail_with 400 m w (cs @ new))"
| query_panic: "runQuery env region q = (new, Inl (GoPanic m)) \<Longrightarrow>
     read_step env region \<lparr>hs_stage = Validated q, hs_conn = w, hs_calls = cs\<rparr>
       \<lparr>hs_stage = Aborted, hs_conn = w\<lparr>w_aborted := True\<rparr>, hs_calls = cs @ new\<rparr>"
| query_ok: "runQuery env region q = (new, Inr ts) \<Longrightarrow>
     read_step env region \<lparr>hs_stage = Validated q, hs_conn = w, hs_calls = cs\<rparr>
       \<lparr>hs_stage = Invoked ts, hs_conn = w, hs_calls = cs @ new\<rparr>"
| marshal_err: "proto_marshal env \<lparr>Results = [\<lparr>Timeseries = ts\<rparr>]\<rparr> = Inl e \<Longrightarrow>
     read_step env region \<lparr>hs_stage = Invoked ts, hs_conn = w, hs_calls = cs\<rparr>
       (fail_with 500 (error_text e) w cs)"
| marshal_ok: "proto_marshal env \<lparr>Results = [\<lparr>Timeseries = ts\<rparr>]\<rparr> = Inr data \<Longrightarrow>
     read_step env region \<lparr>hs_stage = Invoked ts, hs_conn = w, hs_calls = cs\<rparr>
       \<lparr>hs_stage = Encoded data, hs_conn = w, hs_calls = cs\<rparr>"
| encode_panic: "snappy_encode env data = Inl e \<Longrightarrow>
     read_step env region \<lparr>hs_stage = Encoded data, hs_conn = w, hs_calls = cs\<rparr>
       \<lparr>hs_stage = Aborted,
        hs_conn = (set_header ''Content-Type'' ''application/x-protobuf'' w)\<lparr>w_aborted := True\<rparr>,
        hs_calls = cs\<rparr>"
| write_ok: "snappy_encode env data = Inr enc \<Longrightarrow> conn_write enc
       (set_header ''Content-Type'' ''application/x-protobuf'' w) = (w1, None) \<Longrightarrow>
     read_step env region \<lparr>hs_stage = Encoded data, hs_conn = w, hs_calls = cs\<rparr>
       \<lparr>hs_stage = Responded, hs_conn = w1, hs_calls = cs\<rparr>"
| write_err: "snappy_encode env data = Inr enc \<Longrightarrow> conn_write enc
       (set_header ''Content-Type'' ''application/x-protobuf'' w) = (w1, Some e) \<Longrightarrow>
     read_step env region \<lparr>hs_stage = Encoded data, hs_conn = w, hs_calls = cs\<rparr>
       \<lparr>hs_stage = Failed 500 (error_text e), hs_conn = http_error (error_text e) 500 w1,
        hs_calls = cs\<rparr>"

definition init_state :: "go_error + bytes \<Rightarrow> conn \<Rightarrow> hstate" where
  "init_state body w = \<lparr>hs_stage = Received body, hs_conn = w, hs_calls = []\<rparr>"

text \<open>The same transitions as a function: the successor of a state, none for a terminal one.\<close>

definition step_fn :: "server \<Rightarrow> string \<Rightarrow> hstate \<Rightarrow> hstate option" where
  "step_fn env region s =
     (let w = hs_conn s; cs = hs_calls s in
      case hs_stage s of
        Received (Inl e) \<Rightarrow> Some (fail_with 400 (error_text e) w cs)
      | Received (Inr b) \<Rightarrow>
          (case snappy_decode env b of
             Inl e \<Rightarrow> Some (fail_with 400 (error_text e) w cs)
           | Inr buf \<Rightarrow> Some \<lparr>hs_stage = Decompressed buf, hs_conn = w, hs_calls = cs\<rparr>)
      | Decompressed buf \<Rightarrow>
          (case proto_unmarshal env buf of
             Inl e \<Rightarrow> Some (fail_with 400 (error_text e) w cs)
           | Inr req \<Rightarrow> Some \<lparr>hs_stage = Decoded req, hs_conn = w, hs_calls = cs\<rparr>)
      | Decoded req \<Rightarrow>
          if length (Queries req) \<noteq> 1 then Some (fail_with 400 single_query_msg w cs)
          else Some \<lparr>hs_stage = Validated (Queries req ! 0), hs_conn = w, hs_calls = cs\<rparr>
      | Validated q \<Rightarrow>
          (case runQuery env region q of
             (new, Inl (GoErr m)) \<Rightarrow> Some (fail_with 400 m w (cs @ new))
           | (new, Inl (GoPanic m)) \<Rightarrow>
               Some \<lparr>hs_stage = Aborted, hs_conn = w\<lparr>w_aborted := True\<rparr>, hs_calls = cs @ new\<rparr>
           | (new, Inr ts) \<Rightarrow> Some \<lparr>hs_stage = Invoked ts, hs_conn = w, hs_calls = cs @ new\<rparr>)
      | Invoked ts \<Rightarrow>
          (case proto_marshal env \<lparr>Results = [\<lparr>Timeseries = ts\<rparr>]\<rparr> of
             Inl e \<Rightarrow> Some (fail_with 500 (error_text e) w cs)
           | Inr data \<Rightarrow> Some \<lparr>hs_stage = Encoded data, hs_conn = w, hs_calls = cs\<rparr>)
      | Encoded data \<Rightarrow>
          (let w0 = set_header ''Content-Type'' ''application/x-protobuf'' w in
           case snappy_encode env data of
             Inl e \<Rightarrow> Some \<lparr>hs_stage = Aborted, hs_conn = w0\<lparr>w_aborted := True\<rparr>, hs_calls = cs\<rparr>
           | Inr enc \<Rightarrow>
               (case conn_write enc w0 of
                  (w1, None) \<Rightarrow> Some \<lparr>hs_stage = Responded, hs_conn = w1, hs_calls = cs\<rparr>
                | (w1, Some e) \<Rightarrow> Some \<lparr>hs_stage = Failed 500 (error_text e),
                                       hs_conn = http_error (error_text e) 500 w1, hs_calls = cs\<rparr>))
      | _ \<Rightarrow> None)"

lemma step_fn_rank: "step_fn env region s = Some t \<Longrightarrow> stage_rank (hs_stage t) < stage_rank (hs_stage s)"
  by (auto simp: step_fn_def Let_def fail_with_def split: stage.splits sum.splits prod.splits
      go_error.splits option.splits if_splits)

function outcome :: "server \<Rightarrow> string \<Rightarrow> hstate \<Rightarrow> conn \<times> invocation list" where
  "outcome env region s =
     (case step_fn env region s of None \<Rightarrow> (hs_conn s, hs_calls s) | Some t \<Rightarrow> outcome env region t)"
  by pat_completeness auto
termination
  by (relation "measure (\<lambda>(env, region, s). stage_rank (hs_stage s))") (auto dest: step_fn_rank)

declare outcome.simps [simp del]

text \<open>
  The invocation invariant: at most one backend call, each for this region
  and a non-empty function name; none before the query is validated; one on
  every state after a successful \<open>runQuery\<close>, including a 500 failure.
\<close>

definition calls_ok :: "string \<Rightarrow> hstate \<Rightarrow> bool" where
  "calls_ok region s \<longleftrightarrow>
     length (hs_calls s) \<le> 1 \<and>
     (\<forall>c\<in>set (hs_calls s). inv_region c = region \<and> inv_function c \<noteq> '''') \<and>
     (3 \<le> stage_rank (hs_stage s) \<longrightarrow> hs_calls s = []) \<and>
     ((stage_rank (hs_stage s) \<in> {1, 2} \<or> hs_stage s = Responded \<or> (\<exists>m. hs_stage s = Failed 500 m))
        \<longrightarrow> hs_calls s \<noteq> [])"

text \<open>The client has its answer: a status line was written, or the connection was closed.\<close>

definition answered :: "conn \<Rightarrow> bool" where
  "answered c \<longleftrightarrow> w_status c \<noteq> None \<or> w_aborted c"

subsection \<open>Lemmas\<close>

lemma hstate_eta: "s = \<lparr>hs_stage = hs_stage s, hs_conn = hs_conn s, hs_calls = hs_calls s\<rparr>"
  by simp

lemma read_step_step_fn: "read_step env region s t \<Longrightarrow> step_fn env region s = Some t"
  by (induction rule: read_step.induct) (simp_all add: step_fn_def)

lemma step_fn_read_step: "step_fn env region s = Some t \<Longrightarrow> read_step env region s t"
  by (subst hstate_eta [of s], cases "hs_stage s")
    (auto simp: step_fn_def Let_def split: stage.splits sum.splits prod.splits go_error.splits
      option.splits if_splits intro: read_step.intros)

lemma read_step_iff: "read_step env region s t \<longleftrightarrow> step_fn env region s = Some t"
  using read_step_step_fn step_fn_read_step by blast

lemma read_step_deterministic: "read_step env region s t \<Longrightarrow> read_step env region s u \<Longrightarrow> t = u"
  by (simp add: read_step_iff)

lemma step_fn_None: "step_fn env region s = None \<longleftrightarrow> terminal (hs_stage s)"
  by (cases "hs_stage s" rule: terminal.cases)
    (auto simp: step_fn_def Let_def split: sum.splits prod.splits go_error.splits option.splits)

lemma outcome_unfold: "outcome env region s =
   (case step_fn env region s of None \<Rightarrow> (hs_conn s, hs_calls s) | Some t \<Rightarrow> outcome env region t)"
  by (rule outcome.simps)

lemma outcome_validated:
  "outcome env region \<lparr>hs_stage = Validated q, hs_conn = w, hs_calls = []\<rparr> = respond env region q w"
  by (simp add: outcome_unfold [of env region] step_fn_def respond_def fail_with_def split_beta Let_def
      cong: option.case_cong_weak split: sum.split go_error.split option.split)

lemma outcome_init: "outcome env region (init_state body w) = serve_read env region body w"
  by (simp add: outcome_unfold [of env region] step_fn_def serve_read_def init_state_def fail_with_def
      outcome_validated [symmetric]
      cong: option.case_cong_weak split: sum.split)

lemma star_terminal_outcome:
  "(read_step env region)\<^sup>*\<^sup>* s t \<Longrightarrow> terminal (hs_stage t) \<Longrightarrow>
   (hs_conn t, hs_calls t) = outcome env region s"
proof (induction rule: converse_rtranclp_induct)
  case base
  then have "step_fn env region t = None" by (simp add: step_fn_None)
  then show ?case by (simp add: outcome_unfold [of env region t])
next
  case (step s s')
  then have "step_fn env region s = Some s'" by (simp add: read_step_iff)
  with step.IH step.prems show ?case by (simp add: outcome_unfold [of env region s])
qed

lemma outcome_reached:
  "\<exists>t. (read_step env region)\<^sup>*\<^sup>* s t \<and> terminal (hs_stage t)"
proof (induction env region s rule: outcome.induct)
  case (1 env region s)
  show ?case
  proof (cases "step_fn env region s")
    case None
    then show ?thesis by (auto simp: step_fn_None)
  next
    case (Some t)
    with "1.IH" obtain u where "(read_step env region)\<^sup>*\<^sup>* t u" "terminal (hs_stage u)" by blast
    moreover from Some have "read_step env region s t" by (simp add: read_step_iff)
    ultimately show ?thesis by (meson converse_rtranclp_into_rtranclp)
  qed
qed

lemma calls_ok_init: "calls_ok region (init_state body w)"
  by (simp add: calls_ok_def init_state_def)

lemma calls_ok_fail_with:
  "calls_ok region \<lparr>hs_stage = st, hs_conn = w, hs_calls = cs\<rparr> \<Longrightarrow> (code = 500 \<longrightarrow> cs \<noteq> []) \<Longrightarrow>
   calls_ok region (fail_with code msg w' cs)"
  by (auto simp: calls_ok_def fail_with_def)

lemma read_step_calls_ok:
  "read_step env region s t \<Longrightarrow> calls_ok region s \<Longrightarrow> calls_ok region t"
proof (induction rule: read_step.induct)
  case (query_err q new m w cs)
  then show ?case using runQuery_calls_ok [OF query_err.hyps] by (auto simp: calls_ok_def fail_with_def)
next
  case (query_panic q new m w cs)
  then show ?case using runQuery_calls_ok [OF query_panic.hyps] by (auto simp: calls_ok_def)
next
  case (query_ok q new ts w cs)
  then show ?case using runQuery_calls_ok [OF query_ok.hyps] runQuery_Inr_invoked [OF query_ok.hyps]
    by (auto simp: calls_ok_def)
qed (auto simp: calls_ok_def fail_with_def)

lemma star_calls_ok:
  "(read_step env region)\<^sup>*\<^sup>* s t \<Longrightarrow> calls_ok region s \<Longrightarrow> calls_ok region t"
  by (induction rule: rtranclp_induct) (auto intro: read_step_calls_ok)

lemma http_error_status: "w_status (http_error msg code w) \<noteq> None"
  by (simp add: http_error_def conn_write_def write_header_def Let_def)

lemma conn_write_status: "conn_write d w = (w1, r) \<Longrightarrow> w_status w1 \<noteq> None"
  by (auto simp: conn_write_def write_header_def Let_def split: if_splits)

lemma read_step_answered:
  "read_step env region s t \<Longrightarrow> terminal (hs_stage t) \<Longrightarrow> answered (hs_conn t)"
  by (induction rule: read_step.induct)
    (auto simp: answered_def fail_with_def http_error_status dest: conn_write_status)

lemma star_terminal_answered:
  "(read_step env region)\<^sup>*\<^sup>* (init_state body w) t \<Longrightarrow> terminal (hs_stage t) \<Longrightarrow> answered (hs_conn t)"
  by (erule rtranclp.cases) (auto simp: init_state_def intro: read_step_answered)

lemma run_bounded:
  "\<exists>t n. (read_step env region ^^ n) s t \<and> n \<le> stage_rank (hs_stage s) \<and> terminal (hs_stage t)"
proof (induction env region s rule: outcome.induct)
  case (1 env region s)
  show ?case
  proof (cases "step_fn env region s")
    case None
    then have "(read_step env region ^^ 0) s s" "terminal (hs_stage s)"
      by (simp_all add: step_fn_None)
    then show ?thesis by blast
  next
    case (Some t)
    with "1.IH" obtain u n where u: "(read_step env region ^^ n) t u" "n \<le> stage_rank (hs_stage t)"
      "terminal (hs_stage u)" by blast
    from Some have st: "read_step env region s t" by (simp add: read_step_iff)
    from Some have "stage_rank (hs_stage t) < stage_rank (hs_stage s)" by (rule step_fn_rank)
    with st u show ?thesis by (meson Suc_leI le_trans relpowp_Suc_I2 Suc_le_mono)
  qed
qed

lemma step_fn_read_step_the:
  "step_fn env region s \<noteq> None \<Longrightarrow> read_step env region s (the (step_fn env region s))"
  by (auto simp: read_step_iff)

lemma step_fn_Validated_calls:
  "hs_stage s = Validated q \<Longrightarrow>
   \<exists>t. step_fn env region s = Some t \<and> hs_calls t = hs_calls s @ fst (runQuery env region q)"
  by (simp add: step_fn_def Let_def fail_with_def split: prod.split sum.split go_error.split)

subsection \<open>Properties\<close>



text \<open>
  C14: in every state the handler reaches, the backend has been invoked at
  most once, with the process's region and a non-empty function name; not
  before the query is validated; and always before a 500 failure, which only
  follows a successful invocation.
\<close>

theorem reachable_calls_ok:
  "(read_step env region)\<^sup>*\<^sup>* (init_state body w) s \<Longrightarrow> calls_ok region s"
  by (erule star_calls_ok) (rule calls_ok_init)

theorem reachable_calls_ok_witness:
  "\<exists>s. (read_step (scenario_server scenario_matchers 200) ''us-east-1'')\<^sup>*\<^sup>*
          (init_state (Inr ''req'') (fresh_conn True)) s \<and>
       hs_calls s \<noteq> [] \<and> calls_ok ''us-east-1'' s"
proof -
  let ?env = "scenario_server scenario_matchers 200" and ?q = "scenario_query scenario_matchers"
  let ?R = "read_step ?env ''us-east-1''"
  let ?s3 = "\<lparr>hs_stage = Validated ?q, hs_conn = fresh_conn True, hs_calls = []\<rparr>"
  have "?R\<^sup>*\<^sup>* (init_state (Inr ''req'') (fresh_conn True)) ?s3"
  proof -
    have "?R (init_state (Inr ''req'') (fresh_conn True))
             \<lparr>hs_stage = Decompressed ''req'', hs_conn = fresh_conn True, hs_calls = []\<rparr>"
      by (simp add: read_step_iff step_fn_def init_state_def scenario_server_def)
    moreover have "?R \<lparr>hs_stage = Decompressed ''req'', hs_conn = fresh_conn True, hs_calls = []\<rparr>
             \<lparr>hs_stage = Decoded \<lparr>Queries = [?q]\<rparr>, hs_conn = fresh_conn True, hs_calls = []\<rparr>"
      by (simp add: read_step_iff step_fn_def scenario_server_def)
    moreover have "?R \<lparr>hs_stage = Decoded \<lparr>Queries = [?q]\<rparr>, hs_conn = fresh_conn True, hs_calls = []\<rparr> ?s3"
      by (simp add: read_step_iff step_fn_def)
    ultimately show ?thesis by (meson converse_rtranclp_into_rtranclp rtranclp.rtrancl_refl)
  qed
  moreover obtain t where t: "step_fn ?env ''us-east-1'' ?s3 = Some t"
    and c: "hs_calls t = fst (runQuery ?env ''us-east-1'' ?q)"
    using step_fn_Validated_calls [of ?s3 ?q ?env "''us-east-1''"] by auto
  moreover have "matcher_value ''functionName'' (Matchers ?q) \<noteq> ''''"
    by (simp add: scenario_query_def scenario_matchers_def matcher_value_def last_where_def)
  ultimately have r: "?R\<^sup>*\<^sup>* (init_state (Inr ''req'') (fresh_conn True)) t" and "hs_calls t \<noteq> []"
    using runQuery_invoked [of ?q ?env "''us-east-1''"]
    by (auto simp: read_step_iff intro: rtranclp.rtrancl_into_rtrancl)
  moreover have "calls_ok ''us-east-1'' t"
    using reachable_calls_ok [OF r] .
  ultimately show ?thesis by blast
qed



end
