(* ===== verification/Region.thy ===== *)
theory Region
  imports Prelude
begin

text \<open>
  Region resolution at process start (src/main.go, \<open>GetDefaultRegion\<close>,
  lines 115--135, and its call in \<open>main\<close>, lines 145--152). The EC2 metadata
  client and the process environment are capabilities: \<open>Available()\<close> and
  \<open>Region()\<close> are fields of \<open>metadata_service\<close>; the environment is a partial
  map read through \<open>os.Getenv\<close>, which yields the empty string for an unset
  variable. An error of \<open>GetDefaultRegion\<close> makes \<open>main\<close> log and panic
  before the listener starts. The section on the listener's configuration
  models the \<open>config\<close> type and the flag default of \<open>main\<close> (lines
  26--28, 137--141 and 204).
\<close>

subsection \<open>Capabilities\<close>

record metadata_service =
  md_available :: bool
  md_region :: "go_error + string"

type_synonym environ = "string \<rightharpoonup> string"

definition getenv :: "environ \<Rightarrow> string \<Rightarrow> string" where
  "getenv env k = (case env k of None \<Rightarrow> '''' | Some v \<Rightarrow> v)"

subsection \<open>GetDefaultRegion and the start of main\<close>

definition default_region :: string where
  "default_region = ''us-east-1''"

definition GetDefaultRegion :: "metadata_service \<Rightarrow> environ \<Rightarrow> go_error + string" where
  "GetDefaultRegion md env =
     (if md_available md then
        (case md_region md of Inl err \<Rightarrow> Inl err | Inr region \<Rightarrow> Inr region)
      else
        let region = getenv env ''AWS_REGION''
        in Inr (if region = '''' then default_region else region))"

text \<open>\<open>if err != nil { level.Error(logger).Log("err", err); panic(err) }\<close>\<close>

definition main_region :: "metadata_service \<Rightarrow> environ \<Rightarrow> go_error + string" where
  "main_region md env =
     (case GetDefaultRegion md env of
        Inl err \<Rightarrow> Inl (GoPanic (error_text err))
      | Inr region \<Rightarrow> Inr region)"

subsection \<open>The listener's configuration\<close>

text \<open>
  \<open>type config struct { listenAddr string }\<close> and
  \<open>flag.StringVar(&cfg.listenAddr, "web.listen-address", ":9461", ...)\<close>:
  after \<open>flag.Parse()\<close> the field holds the flag's value when the command
  line sets it, the default otherwise (the parsing itself is the flag
  package's).
\<close>

record config =
  listenAddr :: string

definition main_config :: "string option \<Rightarrow> config" where
  "main_config flag_value = \<lparr>listenAddr = (case flag_value of None \<Rightarrow> '':9461'' | Some a \<Rightarrow> a)\<rparr>"

text \<open>\<open>level.Info(logger).Log("msg", "Listening on "+cfg.listenAddr)\<close>\<close>

definition listen_message :: "config \<Rightarrow> string" where
  "listen_message cfg = ''Listening on '' @ listenAddr cfg"

subsection \<open>Lemmas\<close>

lemma GetDefaultRegion_unavailable:
  "\<not> md_available md \<Longrightarrow>
   GetDefaultRegion md env =
     Inr (case env ''AWS_REGION'' of None \<Rightarrow> default_region
          | Some r \<Rightarrow> if r = '''' then default_region else r)"
  by (simp add: GetDefaultRegion_def getenv_def split: option.split)

lemma GetDefaultRegion_available:
  "md_available md \<Longrightarrow> GetDefaultRegion md env = md_region md"
  by (simp add: GetDefaultRegion_def split: sum.split)

lemma main_region_Inl: "main_region md env = Inl p \<Longrightarrow> is_panic p"
  by (auto simp: main_region_def split: sum.splits)

subsection \<open>Properties\<close>

text \<open>
  C16: without a metadata service the region never fails to resolve and is
  never empty: it is the value of \<open>AWS_REGION\<close> when that is set and
  non-empty, and \<open>us-east-1\<close> otherwise.
\<close>

theorem GetDefaultRegion_fallback:
  "\<not> md_available md \<Longrightarrow>
   \<exists>r. GetDefaultRegion md env = Inr r \<and> r \<noteq> '''' \<and>
       (if env ''AWS_REGION'' \<in> {None, Some ''''} then r = ''us-east-1'' else env ''AWS_REGION'' = Some r)"
  by (auto simp: GetDefaultRegion_unavailable default_region_def split: option.split)

theorem GetDefaultRegion_fallback_witness:
  "\<not> md_available \<lparr>md_available = False, md_region = Inl (GoErr ''unused'')\<rparr> \<and>
   GetDefaultRegion \<lparr>md_available = False, md_region = Inl (GoErr ''unused'')\<rparr>
     [''AWS_REGION'' \<mapsto> ''ap-northeast-1''] = Inr ''ap-northeast-1''"
proof -
  obtain r where "GetDefaultRegion \<lparr>md_available = False, md_region = Inl (GoErr ''unused'')\<rparr>
      [''AWS_REGION'' \<mapsto> ''ap-northeast-1''] = Inr r"
    and "r = ''ap-northeast-1''"
    using GetDefaultRegion_fallback [of "\<lparr>md_available = False, md_region = Inl (GoErr ''unused'')\<rparr>"
        "[''AWS_REGION'' \<mapsto> ''ap-northeast-1'']"]
    by auto
  then show ?thesis by simp
qed

text \<open>
  C17: with a metadata service, its answer decides alone: the environment is
  not consulted, a region it returns is used as it is (even an empty one), and
  an error is fatal: \<open>main\<close> panics before the listener starts.
\<close>

theorem main_region_metadata:
  "md_available md \<Longrightarrow>
   main_region md env =
     (case md_region md of Inl err \<Rightarrow> Inl (GoPanic (error_text err)) | Inr r \<Rightarrow> Inr r)"
  by (simp add: main_region_def GetDefaultRegion_available)

theorem main_region_metadata_witness:
  "md_available \<lparr>md_available = True, md_region = Inl (GoErr ''EC2MetadataError'')\<rparr> \<and>
   main_region \<lparr>md_available = True, md_region = Inl (GoErr ''EC2MetadataError'')\<rparr>
     [''AWS_REGION'' \<mapsto> ''eu-west-1''] = Inl (GoPanic ''EC2MetadataError'')"
  using main_region_metadata [of "\<lparr>md_available = True, md_region = Inl (GoErr ''EC2MetadataError'')\<rparr>"
      "[''AWS_REGION'' \<mapsto> ''eu-west-1'']"]
  by simp

end
