(* ===== verification/Utf8.thy ===== *)
theory Utf8
  imports Payload
begin

text \<open>
  UTF-8 as encoding/json's encoder meets it (src/main.go, line 78: the
  \<open>json.Marshal\<close> of the payload copies every valid multi-byte sequence of a
  parameter and replaces each byte that does not start one by \<open>\ufffd\<close>).
  \<open>utf8_encode\<close> is \<open>unicode/utf8.EncodeRune\<close>; \<open>utf8_runes\<close> is the rune
  sequence a \<open>for range\<close> over a Go string yields, and \<open>to_valid_utf8\<close> is
  \<open>[]byte(string([]rune(s)))\<close>: every invalid byte becomes U+FFFD. The
  lemmas show that \<open>decode_rune\<close> and \<open>utf8_encode\<close> are inverse on valid
  sequences and that a sequence decodes the same whatever follows it.
\<close>

subsection \<open>Definitions\<close>

definition utf8_encode :: "nat \<Rightarrow> string" where
  "utf8_encode r =
     (if r < 128 then [char_of r]
      else if r < 2048 then [char_of (192 + r div 64), char_of (128 + r mod 64)]
      else let r' = (if 1114111 < r \<or> (55296 \<le> r \<and> r \<le> 57343) then rune_error else r) in
        if r' < 65536 then
          [char_of (224 + r' div 4096), char_of (128 + (r' div 64) mod 64), char_of (128 + r' mod 64)]
        else [char_of (240 + r' div 262144), char_of (128 + (r' div 4096) mod 64),
              char_of (128 + (r' div 64) mod 64), char_of (128 + r' mod 64)])"

function utf8_runes :: "string \<Rightarrow> nat list" where
  "utf8_runes [] = []"
| "utf8_runes (c # cs) = (let (r, sz) = decode_rune (c # cs) in r # utf8_runes (drop sz (c # cs)))"
  by pat_completeness auto

termination utf8_runes
  by (relation "measure length") (auto dest: decode_rune_size [OF sym])

function utf8_valid :: "string \<Rightarrow> bool" where
  "utf8_valid [] = True"
| "utf8_valid (c # cs) =
     (let (r, sz) = decode_rune (c # cs) in \<not> (r = rune_error \<and> sz = 1) \<and> utf8_valid (drop sz (c # cs)))"
  by pat_completeness auto

termination utf8_valid
  by (relation "measure length") (auto dest: decode_rune_size [OF sym])

definition to_valid_utf8 :: "string \<Rightarrow> string" where
  "to_valid_utf8 s = concat (map utf8_encode (utf8_runes s))"

subsection \<open>Arithmetic of UTF-8 sequences\<close>

lemma mod_range:
  assumes "k * m \<le> b" "b < k * m + m"
  shows "b mod m = b - k * (m :: nat)"
proof -
  have "b = (b - k * m) + k * m" using assms(1) by simp
  moreover have "b - k * m < m" using assms by simp
  ultimately show ?thesis by (metis mod_less mod_mult_self1 mult.commute)
qed

lemma cont_mod_64: "128 \<le> b \<Longrightarrow> b \<le> 191 \<Longrightarrow> b mod 64 = b - (128 :: nat)"
  using mod_range [of 2 64 b] by simp

lemma utf8_encode_2:
  assumes "2 \<le> x0" "x0 < 32" "x1 < 64"
  shows "utf8_encode (x0 * 64 + x1) = [char_of (192 + x0), char_of (128 + x1)]"
  using assms by (simp add: utf8_encode_def)

lemma div_mod_64:
  "b < 64 \<Longrightarrow> (a * 64 + b) div 64 = (a :: nat)" "b < 64 \<Longrightarrow> (a * 64 + b) mod 64 = (b :: nat)"
  by simp_all

lemma div_4096: "r div 4096 = r div 64 div (64 :: nat)"
  using div_mult2_eq [of r 64 64] by simp

lemma div_262144: "r div 262144 = r div 4096 div (64 :: nat)"
  using div_mult2_eq [of r 4096 64] by simp

lemma utf8_encode_3:
  assumes "x0 < 16" "x1 < 64" "x2 < 64" "x0 = 0 \<Longrightarrow> 32 \<le> x1" "x0 = 13 \<Longrightarrow> x1 < 32"
  shows "utf8_encode ((x0 * 64 + x1) * 64 + x2) = [char_of (224 + x0), char_of (128 + x1), char_of (128 + x2)]"
proof -
  define r where "r = (x0 * 64 + x1) * 64 + x2"
  have d: "r div 64 = x0 * 64 + x1" "r mod 64 = x2"
    unfolding r_def using assms(3) by (simp_all only: div_mod_64)
  have "r div 64 mod 64 = x1" "r div 4096 = x0"
    by (simp_all only: d(1) div_4096 div_mod_64 assms(2))
  moreover have "2048 \<le> r" "r < 65536" "\<not> (55296 \<le> r \<and> r \<le> 57343)"
    unfolding r_def using assms by (cases "x0 = 0"; cases "x0 \<le> 12"; cases "x0 = 13"; simp)+
  ultimately show ?thesis unfolding r_def [symmetric] using d by (auto simp add: utf8_encode_def Let_def)
qed

lemma utf8_encode_4:
  assumes "x0 < 8" "x1 < 64" "x2 < 64" "x3 < 64" "x0 = 0 \<Longrightarrow> 16 \<le> x1" "4 \<le> x0 \<Longrightarrow> x0 = 4 \<and> x1 < 16"
  shows "utf8_encode (((x0 * 64 + x1) * 64 + x2) * 64 + x3) =
           [char_of (240 + x0), char_of (128 + x1), char_of (128 + x2), char_of (128 + x3)]"
proof -
  define r where "r = ((x0 * 64 + x1) * 64 + x2) * 64 + x3"
  have d: "r div 64 = (x0 * 64 + x1) * 64 + x2" "r mod 64 = x3"
    unfolding r_def using assms(4) by (simp_all only: div_mod_64)
  have d2: "r div 64 mod 64 = x2" "r div 4096 = x0 * 64 + x1"
    by (simp_all only: d(1) div_4096 div_mod_64 assms(3))
  have "r div 4096 mod 64 = x1" "r div 262144 = x0"
    by (simp_all only: d2(2) div_262144 div_mod_64 assms(2))
  moreover have "65536 \<le> r" "r \<le> 1114111"
    unfolding r_def using assms by (cases "x0 = 0"; cases "4 \<le> x0"; simp)+
  ultimately show ?thesis unfolding r_def [symmetric] using d d2 by (simp add: utf8_encode_def Let_def)
qed

lemma utf8_encode_2b:
  assumes "194 \<le> b0" "b0 \<le> 223" "128 \<le> b1" "b1 \<le> 191"
  shows "utf8_encode ((b0 mod 32) * 64 + b1 mod 64) = [char_of b0, char_of b1]"
proof -
  have "b0 mod 32 = b0 - 192" using assms mod_range [of 6 32 b0] by simp
  then show ?thesis using assms utf8_encode_2 [of "b0 - 192" "b1 - 128"] cont_mod_64 [of b1] by simp
qed

lemma utf8_encode_3b:
  assumes "224 \<le> b0" "b0 \<le> 239" "128 \<le> b1" "b1 \<le> 191" "128 \<le> b2" "b2 \<le> 191"
    "b0 = 224 \<Longrightarrow> 160 \<le> b1" "b0 = 237 \<Longrightarrow> b1 \<le> 159"
  shows "utf8_encode ((b0 mod 16) * 4096 + (b1 mod 64) * 64 + b2 mod 64) = [char_of b0, char_of b1, char_of b2]"
proof -
  have m: "b0 mod 16 = b0 - 224" using assms mod_range [of 14 16 b0] by simp
  have "(b0 mod 16) * 4096 + (b1 mod 64) * 64 + b2 mod 64 = ((b0 mod 16) * 64 + b1 mod 64) * 64 + b2 mod 64"
    by simp
  also have "utf8_encode \<dots> = [char_of (224 + b0 mod 16), char_of (128 + b1 mod 64), char_of (128 + b2 mod 64)]"
  proof (rule utf8_encode_3)
    show "b0 mod 16 = 0 \<Longrightarrow> 32 \<le> b1 mod 64" using assms m cont_mod_64 [of b1] by (cases "b0 = 224") auto
    show "b0 mod 16 = 13 \<Longrightarrow> b1 mod 64 < 32" using assms m cont_mod_64 [of b1] by (cases "b0 = 237") auto
  qed simp_all
  finally show ?thesis using assms m cont_mod_64 [of b1] cont_mod_64 [of b2] by simp
qed

lemma utf8_encode_4b:
  assumes "240 \<le> b0" "b0 \<le> 244" "128 \<le> b1" "b1 \<le> 191" "128 \<le> b2" "b2 \<le> 191" "128 \<le> b3" "b3 \<le> 191"
    "b0 = 240 \<Longrightarrow> 144 \<le> b1" "b0 = 244 \<Longrightarrow> b1 \<le> 143"
  shows "utf8_encode ((b0 mod 8) * 262144 + (b1 mod 64) * 4096 + (b2 mod 64) * 64 + b3 mod 64) =
           [char_of b0, char_of b1, char_of b2, char_of b3]"
proof -
  have m: "b0 mod 8 = b0 - 240" using assms mod_range [of 30 8 b0] by simp
  have "(b0 mod 8) * 262144 + (b1 mod 64) * 4096 + (b2 mod 64) * 64 + b3 mod 64 =
        (((b0 mod 8) * 64 + b1 mod 64) * 64 + b2 mod 64) * 64 + b3 mod 64"
    by simp
  also have "utf8_encode \<dots> =
      [char_of (240 + b0 mod 8), char_of (128 + b1 mod 64), char_of (128 + b2 mod 64), char_of (128 + b3 mod 64)]"
  proof (rule utf8_encode_4)
    show "b0 mod 8 = 0 \<Longrightarrow> 16 \<le> b1 mod 64" using assms m cont_mod_64 [of b1] by (cases "b0 = 240") auto
    show "4 \<le> b0 mod 8 \<Longrightarrow> b0 mod 8 = 4 \<and> b1 mod 64 < 16"
      using assms m cont_mod_64 [of b1] by (cases "b0 = 244") auto
  qed simp_all
  finally show ?thesis using assms m cont_mod_64 [of b1] cont_mod_64 [of b2] cont_mod_64 [of b3] by simp
qed

lemma utf8_first_cases:
  "utf8_first b = Some (sz, lo, hi) \<Longrightarrow>
     (sz = 2 \<and> 194 \<le> b \<and> b \<le> 223 \<and> lo = 128 \<and> hi = 191) \<or>
     (sz = 3 \<and> 224 \<le> b \<and> b \<le> 239 \<and> lo = (if b = 224 then 160 else 128) \<and> hi = (if b = 237 then 159 else 191)) \<or>
     (sz = 4 \<and> 240 \<le> b \<and> b \<le> 244 \<and> lo = (if b = 240 then 144 else 128) \<and> hi = (if b = 244 then 143 else 191))"
  by (auto simp: utf8_first_def split: if_splits)

lemma take_123:
  "Suc 0 \<le> length t \<Longrightarrow> take (Suc 0) t = [t ! 0]"
  "2 \<le> length t \<Longrightarrow> take 2 t = [t ! 0, t ! 1]"
  "3 \<le> length t \<Longrightarrow> take 3 t = [t ! 0, t ! 1, t ! 2]"
  by (cases t; cases "tl t"; cases "tl (tl t)"; simp)+

lemma decode_rune_multi:
  assumes "decode_rune (c0 # t) = (r, sz)" "\<not> of_char c0 < (128 :: nat)"
    "utf8_first (of_char c0) = Some (n, lo, hi)" "\<not> (r = rune_error \<and> sz = 1)"
  shows "sz = n \<and> n \<le> Suc (length t) \<and> lo \<le> of_char (t ! 0) \<and> of_char (t ! 0) \<le> hi \<and>
         (3 \<le> n \<longrightarrow> is_cont (of_char (t ! 1))) \<and> (n = 4 \<longrightarrow> is_cont (of_char (t ! 2))) \<and>
         r = (if n = 2 then (of_char c0 mod 32) * 64 + of_char (t ! 0) mod 64
              else if n = 3 then (of_char c0 mod 16) * 4096 + (of_char (t ! 0) mod 64) * 64 + of_char (t ! 1) mod 64
              else (of_char c0 mod 8) * 262144 + (of_char (t ! 0) mod 64) * 4096 +
                   (of_char (t ! 1) mod 64) * 64 + of_char (t ! 2) mod 64)"
  using assms utf8_first_cases [OF assms(3)]
  by (auto simp: decode_rune_def Let_def split: if_splits)

lemma decode_rune_utf8_encode:
  assumes "decode_rune s = (r, sz)" "s \<noteq> []" "\<not> (r = rune_error \<and> sz = 1)"
  shows "sz \<le> length s \<and> take sz s = utf8_encode r"
proof -
  obtain c0 t where s: "s = c0 # t" using assms(2) by (cases s) auto
  show ?thesis
  proof (cases "of_char c0 < (128 :: nat)")
    case True
    then show ?thesis using assms(1) by (auto simp: s decode_rune_def utf8_encode_def)
  next
    case False
    then obtain n lo hi where f: "utf8_first (of_char c0) = Some (n, lo, hi)"
      using assms(1,3) by (cases "utf8_first (of_char c0)") (auto simp: s decode_rune_def)
    define b0 where "b0 = (of_char c0 :: nat)"
    define b1 where "b1 = (of_char (t ! 0) :: nat)"
    define b2 where "b2 = (of_char (t ! 1) :: nat)"
    define b3 where "b3 = (of_char (t ! 2) :: nat)"
    note d = decode_rune_multi [OF assms(1) [unfolded s] False f assms(3), folded b0_def b1_def b2_def b3_def]
    note c = utf8_first_cases [OF f, folded b0_def]
    have ch: "c0 = char_of b0" "t ! 0 = char_of b1" "t ! Suc 0 = char_of b2" "t ! 2 = char_of b3"
      by (simp_all add: b0_def b1_def b2_def b3_def)
    consider "n = 2" | "n = 3" | "n = 4" using c by blast
    then show ?thesis
    proof cases
      case 1
      have r: "r = b0 mod 32 * 64 + b1 mod 64" using d 1 by simp
      have "take sz s = [char_of b0, char_of b1]" using d 1 by (simp add: s take_123 ch)
      also have "\<dots> = utf8_encode r" unfolding r using d c 1 by (intro utf8_encode_2b [symmetric]) auto
      finally show ?thesis using d 1 by (simp add: s)
    next
      case 2
      have r: "r = b0 mod 16 * 4096 + b1 mod 64 * 64 + b2 mod 64" using d 2 by simp
      have "take sz s = [char_of b0, char_of b1, char_of b2]" using d 2 by (simp add: s take_123 ch)
      also have "\<dots> = utf8_encode r"
        unfolding r using d c 2 by (intro utf8_encode_3b [symmetric]) (auto simp: is_cont_def split: if_splits)
      finally show ?thesis using d 2 by (simp add: s)
    next
      case 3
      have r: "r = b0 mod 8 * 262144 + b1 mod 64 * 4096 + b2 mod 64 * 64 + b3 mod 64" using d 3 by simp
      have "take sz s = [char_of b0, char_of b1, char_of b2, char_of b3]" using d 3 by (simp add: s take_123 ch)
      also have "\<dots> = utf8_encode r"
        unfolding r using d c 3 by (intro utf8_encode_4b [symmetric]) (auto simp: is_cont_def split: if_splits)
      finally show ?thesis using d 3 by (simp add: s)
    qed
  qed
qed

lemma decode_rune_prefix:
  assumes "decode_rune s = (r, sz)" "s \<noteq> []" "\<not> (r = rune_error \<and> sz = 1)"
  shows "decode_rune (take sz s @ u) = (r, sz)"
proof -
  obtain c0 t where s: "s = c0 # t" using assms(2) by (cases s) auto
  have len: "sz \<le> length s" using decode_rune_utf8_encode [OF assms] by simp
  show ?thesis
  proof (cases "of_char c0 < (128 :: nat)")
    case True
    then show ?thesis using assms(1) by (auto simp: s decode_rune_def)
  next
    case False
    then obtain n lo hi where f: "utf8_first (of_char c0) = Some (n, lo, hi)"
      using assms(1,3) by (cases "utf8_first (of_char c0)") (auto simp: s decode_rune_def)
    note d = decode_rune_multi [OF assms(1) [unfolded s] False f assms(3)]
    have n: "2 \<le> n" "n \<le> 4" using utf8_first_cases [OF f] by auto
    define t' where "t' = take (n - 1) t @ u"
    have s': "take sz s @ u = c0 # t'" using d n by (simp add: s t'_def take_Cons')
    have nl: "n - 1 \<le> length t" using d by linarith
    have nth: "\<And>i. i < n - 1 \<Longrightarrow> t' ! i = t ! i" and lt: "n - 1 \<le> length t'"
      using nl by (simp_all add: t'_def nth_append)
    consider "n = 2" | "n = 3" | "n = 4" using n by linarith
    then show ?thesis
    proof cases
      case 1
      then have "t' \<noteq> []" using lt by auto
      then show ?thesis unfolding s' using d f False lt nth [of 0] 1
        by (simp add: decode_rune_def Let_def)
    next
      case 2
      then show ?thesis unfolding s' using d f False lt nth [of 0] nth [of 1]
        by (simp add: decode_rune_def Let_def)
    next
      case 3
      then show ?thesis unfolding s' using d f False lt nth [of 0] nth [of 1] nth [of 2]
        by (simp add: decode_rune_def Let_def)
    qed
  qed
qed

lemma decode_rune_ascii: "of_char c < (128 :: nat) \<Longrightarrow> decode_rune (c # t) = (of_char c, 1)"
  by (simp add: decode_rune_def)

lemma to_valid_utf8_Cons:
  "decode_rune (c # cs) = (r, sz) \<Longrightarrow> to_valid_utf8 (c # cs) = utf8_encode r @ to_valid_utf8 (drop sz (c # cs))"
  by (simp add: to_valid_utf8_def)

lemma utf8_encode_ascii: "of_char c < (128 :: nat) \<Longrightarrow> utf8_encode (of_char c) = [c]"
  by (simp add: utf8_encode_def)

lemma utf8_valid_sanitize: "utf8_valid s \<Longrightarrow> to_valid_utf8 s = s"
proof (induction s rule: utf8_valid.induct)
  case 1
  then show ?case by (simp add: to_valid_utf8_def)
next
  case (2 c cs)
  obtain r sz where d: "decode_rune (c # cs) = (r, sz)" by fastforce
  have ok: "\<not> (r = rune_error \<and> sz = 1)" "utf8_valid (drop sz (c # cs))" using 2(2) d by simp_all
  have "take sz (c # cs) = utf8_encode r" using decode_rune_utf8_encode [OF d _ ok(1)] by simp
  then show ?case using 2(1) [OF refl d [symmetric]] ok d
    by (metis append_take_drop_id to_valid_utf8_Cons)
qed

lemma utf8_valid_ascii: "(\<forall>c\<in>set s. of_char c < (128 :: nat)) \<Longrightarrow> utf8_valid s"
  by (induction s) (simp_all add: decode_rune_ascii rune_error_def)



subsection \<open>Properties\<close>



end
