(* ===== verification/JsonRead.thy ===== *)
theory JsonRead
  imports Utf8 RunQuery
begin

text \<open>
  What the Lambda function reads from the payload of \<open>runQuery\<close>
  (src/main.go, lines 68--86). The reader is encoding/json's scanner and
  \<open>unquote\<close> for strings (escapes \<open>\" \\ \/ \b \f \n \r \t \uXXXX\<close>,
  surrogate pairs, control bytes rejected, invalid UTF-8 replaced) and a
  reader of objects and strings without white space. It is the contract the
  payload is written for; the lemmas show that the encoder of \<open>Payload\<close>
  meets it: every parameter string is read back, up to exactly its closing
  quote, as its valid-UTF-8 form, so no parameter value can change the shape
  of the payload.
\<close>

subsection \<open>Reading a JSON string (encoding/json scanner and unquote)\<close>

definition hex_val :: "char \<Rightarrow> nat option" where
  "hex_val c =
     (let n = (of_char c :: nat) in
      if 48 \<le> n \<and> n \<le> 57 then Some (n - 48)
      else if 97 \<le> n \<and> n \<le> 102 then Some (n - 87)
      else if 65 \<le> n \<and> n \<le> 70 then Some (n - 55)
      else None)"

fun getu4 :: "string \<Rightarrow> nat option" where
  "getu4 (c0 # c1 # h1 # h2 # h3 # h4 # _) =
     (if c0 = bslash \<and> c1 = CHR ''u'' then
        (case (hex_val h1, hex_val h2, hex_val h3, hex_val h4) of
           (Some a, Some b, Some c, Some d) \<Rightarrow> Some (((a * 16 + b) * 16 + c) * 16 + d)
         | _ \<Rightarrow> None)
      else None)"
| "getu4 _ = None"

definition is_surrogate :: "nat \<Rightarrow> bool" where
  "is_surrogate r \<longleftrightarrow> 55296 \<le> r \<and> r < 57344"

definition utf16_decode :: "nat \<Rightarrow> nat \<Rightarrow> nat" where
  "utf16_decode r1 r2 =
     (if 55296 \<le> r1 \<and> r1 < 56320 \<and> 56320 \<le> r2 \<and> r2 < 57344
      then (r1 - 55296) * 1024 + (r2 - 56320) + 65536 else rune_error)"

definition unescape_short :: "char \<Rightarrow> char option" where
  "unescape_short e =
     (if e = dquote \<or> e = bslash \<or> e = CHR ''/'' then Some e
      else if e = CHR ''b'' then Some (char_of (8 :: nat))
      else if e = CHR ''f'' then Some (char_of (12 :: nat))
      else if e = CHR ''n'' then Some (char_of (10 :: nat))
      else if e = CHR ''r'' then Some (char_of (13 :: nat))
      else if e = CHR ''t'' then Some (char_of (9 :: nat))
      else None)"

definition prepend :: "string \<Rightarrow> (string \<times> string) option \<Rightarrow> (string \<times> string) option" where
  "prepend u = map_option (apfst (\<lambda>v. u @ v))"

function json_unquote :: "string \<Rightarrow> (string \<times> string) option" where
  "json_unquote [] = None"
| "json_unquote (c # cs) =
     (if c = dquote then Some ([], cs)
      else if c = bslash then
        (case cs of
           [] \<Rightarrow> None
         | e # cs' \<Rightarrow>
             if e = CHR ''u'' then
               (case getu4 (c # cs) of
                  None \<Rightarrow> None
                | Some rr \<Rightarrow>
                    if is_surrogate rr then
                      (case getu4 (drop 6 (c # cs)) of
                         Some rr1 \<Rightarrow>
                           if utf16_decode rr rr1 \<noteq> rune_error
                           then prepend (utf8_encode (utf16_decode rr rr1)) (json_unquote (drop 12 (c # cs)))
                           else prepend (utf8_encode rune_error) (json_unquote (drop 6 (c # cs)))
                       | None \<Rightarrow> prepend (utf8_encode rune_error) (json_unquote (drop 6 (c # cs))))
                    else prepend (utf8_encode rr) (json_unquote (drop 6 (c # cs))))
             else (case unescape_short e of
                     None \<Rightarrow> None
                   | Some d \<Rightarrow> prepend [d] (json_unquote cs')))
      else if of_char c < (32 :: nat) then None
      else if of_char c < (128 :: nat) then prepend [c] (json_unquote cs)
      else let (r, sz) = decode_rune (c # cs) in prepend (utf8_encode r) (json_unquote (drop sz (c # cs))))"
  by pat_completeness auto

termination json_unquote
  by (relation "measure length") (auto dest: decode_rune_size [OF sym])

text \<open>
  JSON values of the shape the payload has (strings and objects), and a
  reader for them without white space, as \<open>json.Marshal\<close> writes none. The
  reader takes fuel: each nested call consumes one unit and at least one
  byte, so the length of the input is always enough.
\<close>

datatype jval = JStr string | JObj "(string \<times> jval) list"

fun parse_value :: "nat \<Rightarrow> string \<Rightarrow> (jval \<times> string) option"
and parse_members :: "nat \<Rightarrow> (string \<times> jval) list \<Rightarrow> string \<Rightarrow> ((string \<times> jval) list \<times> string) option" where
  "parse_value 0 s = None"
| "parse_value (Suc n) s =
     (case s of
        [] \<Rightarrow> None
      | c # r \<Rightarrow>
          if c = dquote then map_option (apfst JStr) (json_unquote r)
          else if c = CHR ''{'' then
            (case r of
               [] \<Rightarrow> None
             | c' # r' \<Rightarrow> if c' = CHR ''}'' then Some (JObj [], r')
                          else map_option (apfst JObj) (parse_members n [] r))
          else None)"
| "parse_members 0 acc s = None"
| "parse_members (Suc n) acc s =
     (case s of
        c # r \<Rightarrow>
          if c = dquote then
            (case json_unquote r of
               Some (k, c1 # r2) \<Rightarrow>
                 if c1 = CHR '':'' then
                   (case parse_value n r2 of
                      Some (v, c3 # r4) \<Rightarrow>
                        if c3 = CHR '','' then parse_members n (acc @ [(k, v)]) r4
                        else if c3 = CHR ''}'' then Some (acc @ [(k, v)], r4)
                        else None
                    | _ \<Rightarrow> None)
                 else None
             | _ \<Rightarrow> None)
          else None
      | [] \<Rightarrow> None)"

definition parse_json :: "string \<Rightarrow> jval option" where
  "parse_json s = (case parse_value (length s) s of Some (v, []) \<Rightarrow> Some v | _ \<Rightarrow> None)"

subsection \<open>Lemmas\<close>

lemma hex_val_hex_char: "k < 16 \<Longrightarrow> hex_val (hex_char k) = Some k"
  by (auto simp: less_Suc_eq numeral_eq_Suc hex_val_def hex_char_def)

lemma prepend_Some [simp]: "prepend u (Some (v, r)) = Some (u @ v, r)"
  by (simp add: prepend_def)

lemma prepend_prepend [simp]: "prepend u (prepend v x) = prepend (u @ v) x"
  by (cases x) (auto simp: prepend_def)

lemma char_of_inj: "b < 256 \<Longrightarrow> b' < 256 \<Longrightarrow> (char_of b = (char_of b' :: char)) = (b = (b' :: nat))"
  by (metis mod_less of_char_of)

lemma special_chars [simp]:
  "dquote \<noteq> bslash" "bslash \<noteq> dquote" "CHR ''u'' \<noteq> dquote" "CHR ''u'' \<noteq> bslash"
  "of_char dquote = (34 :: nat)" "of_char bslash = (92 :: nat)"
  by (simp_all add: dquote_def bslash_def) (auto dest: arg_cong [where f = "of_char :: char \<Rightarrow> nat"])

lemma json_unquote_raw:
  "c \<noteq> dquote \<Longrightarrow> c \<noteq> bslash \<Longrightarrow> 32 \<le> (of_char c :: nat) \<Longrightarrow> of_char c < (128 :: nat) \<Longrightarrow>
   json_unquote (c # t) = prepend [c] (json_unquote t)"
  by simp

lemma json_unquote_short:
  "unescape_short e = Some d \<Longrightarrow> e \<noteq> CHR ''u'' \<Longrightarrow>
   json_unquote (bslash # e # t) = prepend [d] (json_unquote t)"
  by simp

lemma json_unquote_u:
  "getu4 (bslash # CHR ''u'' # t) = Some r \<Longrightarrow> \<not> is_surrogate r \<Longrightarrow>
   json_unquote (bslash # CHR ''u'' # t) = prepend (utf8_encode r) (json_unquote (drop 4 t))"
  by simp

lemma of_char_neq: "(of_char c :: nat) \<noteq> of_char d \<Longrightarrow> c \<noteq> d"
  by auto

lemma unescape_short_cases:
  "unescape_short dquote = Some dquote" "unescape_short bslash = Some bslash"
  "unescape_short (CHR ''n'') = Some (char_of (10 :: nat))"
  "unescape_short (CHR ''r'') = Some (char_of (13 :: nat))"
  "unescape_short (CHR ''t'') = Some (char_of (9 :: nat))"
  by (simp_all add: unescape_short_def of_char_neq)

lemma getu4_hex:
  "b < 256 \<Longrightarrow> getu4 (bslash # CHR ''u'' # CHR ''0'' # CHR ''0'' # hex_char (b div 16) # hex_char (b mod 16) # t) = Some b"
  by (simp add: hex_val_hex_char less_mult_imp_div_less) (simp add: hex_val_def)

lemma json_unquote_escape_ascii:
  assumes "of_char c < (128 :: nat)"
  shows "json_unquote (escape_ascii (of_char c) @ t) = prepend [c] (json_unquote t)"
proof -
  let ?b = "of_char c :: nat"
  have c: "c = char_of ?b" by simp
  show ?thesis
  proof (cases "html_safe ?b")
    case True
    then show ?thesis using assms
      by (auto simp: escape_ascii_def html_safe_def of_char_neq intro: json_unquote_raw)
  next
    case False
    note nu = of_char_neq [of c "CHR ''u''"]
    consider "?b = 92 \<or> ?b = 34" | "?b = 10" | "?b = 13" | "?b = 9"
      | "\<not> html_safe ?b" "?b \<noteq> 92" "?b \<noteq> 34" "?b \<noteq> 10" "?b \<noteq> 13" "?b \<noteq> 9"
      using False by blast
    then show ?thesis
    proof cases
      case 1
      then have "c = bslash \<or> c = dquote" unfolding bslash_def dquote_def by (metis c)
      then show ?thesis using False 1 nu
        by (auto simp: escape_ascii_def unescape_short_cases intro!: json_unquote_short)
    next
      case 2
      then show ?thesis using False by (subst c) (simp add: escape_ascii_def unescape_short_cases json_unquote_short)
    next
      case 3
      then show ?thesis using False by (subst c) (simp add: escape_ascii_def unescape_short_cases json_unquote_short)
    next
      case 4
      then show ?thesis using False by (subst c) (simp add: escape_ascii_def unescape_short_cases json_unquote_short)
    next
      case 5
      have "getu4 (bslash # CHR ''u'' # CHR ''0'' # CHR ''0'' # hex_char (?b div 16) # hex_char (?b mod 16) # t) = Some ?b"
        using assms by (intro getu4_hex) simp
      moreover have "\<not> is_surrogate ?b" using assms by (simp add: is_surrogate_def)
      ultimately show ?thesis using 5 assms
        by (simp add: escape_ascii_def json_unquote_u utf8_encode_def)
    qed
  qed
qed

lemma json_unquote_multi:
  "\<not> of_char c < (128 :: nat) \<Longrightarrow> decode_rune (c # t) = (r, sz) \<Longrightarrow>
   json_unquote (c # t) = prepend (utf8_encode r) (json_unquote (drop sz (c # t)))"
  by (auto simp: of_char_neq)

lemma getu4_fffd: "getu4 (bslash # ''ufffd'' @ t) = Some rune_error"
  by (simp add: hex_val_def rune_error_def)

lemma getu4_202x:
  "r = 8232 \<or> r = 8233 \<Longrightarrow> getu4 (bslash # ''u202'' @ hex_char (r mod 16) # t) = Some r"
  by (auto simp: hex_val_def hex_char_def)

lemma json_unquote_escape:
  "json_unquote (json_escape s @ dquote # rest) = Some (to_valid_utf8 s, rest)"
proof (induction s rule: json_escape.induct)
  case 1
  then show ?case by (simp add: to_valid_utf8_def)
next
  case (2 c cs)
  show ?case
  proof (cases "of_char c < (128 :: nat)")
    case True
    then show ?thesis using 2(1)
      by (simp add: json_unquote_escape_ascii to_valid_utf8_Cons decode_rune_ascii utf8_encode_ascii)
  next
    case False
    obtain r sz where d: "decode_rune (c # cs) = (r, sz)" by fastforce
    consider (err) "r = rune_error \<and> sz = 1" | (sep) "\<not> (r = rune_error \<and> sz = 1)" "r = 8232 \<or> r = 8233"
      | (seq) "\<not> (r = rune_error \<and> sz = 1)" "\<not> (r = 8232 \<or> r = 8233)" by blast
    then show ?thesis
    proof cases
      case err
      have "\<not> is_surrogate rune_error" by (simp add: is_surrogate_def rune_error_def)
      then show ?thesis using 2(2) [OF False refl d [symmetric] err] False d err getu4_fffd
        by (simp add: to_valid_utf8_Cons json_unquote_u)
    next
      case sep
      have e: "json_escape (c # cs) = [bslash] @ ''u202'' @ [hex_char (r mod 16)] @ json_escape (drop sz (c # cs))"
        using False d sep by simp
      have "\<not> is_surrogate r" using sep(2) by (auto simp: is_surrogate_def)
      then show ?thesis using 2(3) [OF False refl d [symmetric]] sep e d getu4_202x [OF sep(2)]
        by (simp add: to_valid_utf8_Cons json_unquote_u)
    next
      case seq
      have e: "json_escape (c # cs) = take sz (c # cs) @ json_escape (drop sz (c # cs))"
        using False d seq by simp
      have sz: "sz \<le> length (c # cs)" using decode_rune_utf8_encode [OF d _ seq(1)] by simp
      have "1 \<le> sz" using decode_rune_size [OF d] .
      then obtain t where t: "take sz (c # cs) = c # t" by (cases sz) auto
      let ?X = "json_escape (drop sz (c # cs)) @ dquote # rest"
      have dec: "decode_rune (c # t @ ?X) = (r, sz)"
        using decode_rune_prefix [OF d _ seq(1), of ?X] t by simp
      have dr: "drop sz (c # t @ ?X) = ?X"
        using sz t by (metis append_Cons append_assoc append_eq_conv_conj length_take min_absorb2)
      have "json_unquote (json_escape (c # cs) @ dquote # rest) = json_unquote (c # t @ ?X)"
        by (simp only: e t append.simps append_assoc)
      also have "\<dots> = prepend (utf8_encode r) (json_unquote ?X)"
        using json_unquote_multi [OF False dec] dr by simp
      also have "\<dots> = Some (utf8_encode r @ to_valid_utf8 (drop sz (c # cs)), rest)"
        using 2(4) [OF False refl d [symmetric]] seq by simp
      finally show ?thesis using d by (simp add: to_valid_utf8_Cons)
    qed
  qed
qed

lemma parse_value_string:
  "parse_value (Suc n) (dquote # json_escape s @ dquote # rest) = Some (JStr (to_valid_utf8 s), rest)"
  by (simp add: json_unquote_escape)

lemma dquote_lit: "dquote = CHR 0x22"
proof -
  have "of_char (CHR 0x22) = (34 :: nat)" by simp
  then show ?thesis unfolding dquote_def by (metis char_of_char)
qed

lemma json_unquote_key:
  "\<forall>c\<in>set k. html_safe (of_char c) \<Longrightarrow> json_unquote (k @ dquote # rest) = Some (k, rest)"
  by (induction k) (auto simp: html_safe_def of_char_neq)

lemma lambda_payload_form:
  "lambda_payload f t tg ty =
     CHR ''{'' # dquote # ''range'' @ dquote # CHR '':'' #
       CHR ''{'' # dquote # ''from'' @ dquote # CHR '':'' # dquote # json_escape f @ dquote # CHR '','' #
       dquote # ''to'' @ dquote # CHR '':'' # dquote # json_escape t @ dquote # CHR ''}'' # CHR '','' #
     dquote # ''targets'' @ dquote # CHR '':'' #
       CHR ''{'' # dquote # ''target'' @ dquote # CHR '':'' # dquote # json_escape tg @ dquote # CHR '','' #
       dquote # ''type'' @ dquote # CHR '':'' # dquote # json_escape ty @ dquote # CHR ''}'' # CHR ''}'' # []"
  by (simp add: lambda_payload_def json_string_def dquote_lit)

lemma brace_chars [simp]: "CHR ''{'' \<noteq> dquote" "dquote \<noteq> CHR ''}''"
  by (simp_all add: dquote_lit)

lemma parse_obj_open:
  "parse_value (Suc n) (CHR ''{'' # dquote # r) = map_option (apfst JObj) (parse_members n [] (dquote # r))"
  by simp

lemma parse_member:
  "json_unquote r = Some (k, CHR '':'' # r2) \<Longrightarrow> parse_value n r2 = Some (v, c3 # r4) \<Longrightarrow>
   parse_members (Suc n) acc (dquote # r) =
     (if c3 = CHR '','' then parse_members n (acc @ [(k, v)]) r4
      else if c3 = CHR ''}'' then Some (acc @ [(k, v)], r4) else None)"
  by simp

lemma parse_pair_key:
  "\<forall>c\<in>set k. html_safe (of_char c) \<Longrightarrow> parse_value n r2 = Some (v, c3 # r4) \<Longrightarrow>
   parse_members (Suc n) acc (dquote # k @ dquote # CHR '':'' # r2) =
     (if c3 = CHR '','' then parse_members n (acc @ [(k, v)]) r4
      else if c3 = CHR ''}'' then Some (acc @ [(k, v)], r4) else None)"
  by (rule parse_member) (simp_all add: json_unquote_key)

lemma html_safe_keys:
  "\<forall>c\<in>set ''range''. html_safe (of_char c)" "\<forall>c\<in>set ''from''. html_safe (of_char c)"
  "\<forall>c\<in>set ''to''. html_safe (of_char c)" "\<forall>c\<in>set ''targets''. html_safe (of_char c)"
  "\<forall>c\<in>set ''target''. html_safe (of_char c)" "\<forall>c\<in>set ''type''. html_safe (of_char c)"
  by (simp_all add: html_safe_def)

lemma parse_string_object:
  assumes "\<forall>c\<in>set k1. html_safe (of_char c)" "\<forall>c\<in>set k2. html_safe (of_char c)"
  shows "parse_value (Suc (Suc (Suc (Suc n))))
     (CHR ''{'' # dquote # k1 @ dquote # CHR '':'' # dquote # json_escape a @ dquote # CHR '','' #
      dquote # k2 @ dquote # CHR '':'' # dquote # json_escape b @ dquote # CHR ''}'' # rest) =
     Some (JObj [(k1, JStr (to_valid_utf8 a)), (k2, JStr (to_valid_utf8 b))], rest)"
proof -
  have a: "parse_value (Suc (Suc n)) (dquote # json_escape a @ dquote # CHR '','' # dquote # k2 @ dquote # CHR '':'' #
       dquote # json_escape b @ dquote # CHR ''}'' # rest) =
     Some (JStr (to_valid_utf8 a), CHR '','' # dquote # k2 @ dquote # CHR '':'' # dquote # json_escape b @ dquote # CHR ''}'' # rest)"
    by (rule parse_value_string)
  have b: "parse_value (Suc n) (dquote # json_escape b @ dquote # CHR ''}'' # rest) =
     Some (JStr (to_valid_utf8 b), CHR ''}'' # rest)"
    by (rule parse_value_string)
  show ?thesis
    by (simp only: parse_obj_open parse_pair_key [OF assms(1) a] parse_pair_key [OF assms(2) b])
       simp
qed

lemma parse_value_payload:
  "parse_value (Suc (Suc (Suc (Suc (Suc (Suc (Suc (Suc (Suc (Suc n))))))))))
     (lambda_payload from to target typ) =
   Some (JObj [(''range'', JObj [(''from'', JStr (to_valid_utf8 from)), (''to'', JStr (to_valid_utf8 to))]),
               (''targets'', JObj [(''target'', JStr (to_valid_utf8 target)), (''type'', JStr (to_valid_utf8 typ))])],
         [])"
proof -
  let ?t = "CHR ''{'' # dquote # ''target'' @ dquote # CHR '':'' # dquote # json_escape target @ dquote # CHR '','' #
       dquote # ''type'' @ dquote # CHR '':'' # dquote # json_escape typ @ dquote # CHR ''}'' # CHR ''}'' # []"
  have r: "parse_value (Suc (Suc (Suc (Suc (Suc (Suc (Suc (Suc n))))))))
     (CHR ''{'' # dquote # ''from'' @ dquote # CHR '':'' # dquote # json_escape from @ dquote # CHR '','' #
      dquote # ''to'' @ dquote # CHR '':'' # dquote # json_escape to @ dquote # CHR ''}'' #
      CHR '','' # dquote # ''targets'' @ dquote # CHR '':'' # ?t) =
     Some (JObj [(''from'', JStr (to_valid_utf8 from)), (''to'', JStr (to_valid_utf8 to))],
           CHR '','' # dquote # ''targets'' @ dquote # CHR '':'' # ?t)"
    by (rule parse_string_object) (simp_all add: html_safe_def)
  have t: "parse_value (Suc (Suc (Suc (Suc (Suc (Suc (Suc n))))))) ?t =
     Some (JObj [(''target'', JStr (to_valid_utf8 target)), (''type'', JStr (to_valid_utf8 typ))], CHR ''}'' # [])"
    by (rule parse_string_object) (simp_all add: html_safe_def)
  show ?thesis
    unfolding lambda_payload_form
    by (simp only: parse_obj_open parse_pair_key [OF html_safe_keys(1) r] parse_pair_key [OF html_safe_keys(4) t])
       simp
qed

lemma parse_json_payload:
  "parse_json (lambda_payload from to target typ) =
   Some (JObj [(''range'', JObj [(''from'', JStr (to_valid_utf8 from)), (''to'', JStr (to_valid_utf8 to))]),
               (''targets'', JObj [(''target'', JStr (to_valid_utf8 target)), (''type'', JStr (to_valid_utf8 typ))])])"
proof -
  obtain n where eq: "length (lambda_payload from to target typ) =
      Suc (Suc (Suc (Suc (Suc (Suc (Suc (Suc (Suc (Suc n)))))))))"
    by (simp add: lambda_payload_def)
  show ?thesis by (simp only: parse_json_def eq parse_value_payload) simp
qed

lemma dec_digits_ascii: "c \<in> set (dec_digits n) \<Longrightarrow> of_char c < (128 :: nat)"
proof (induction n rule: dec_digits.induct)
  case (1 n)
  then show ?case by (auto simp: dec_digits.simps [of n] digit_char_def split: if_splits)
qed

lemma append_int_ascii: "c \<in> set (append_int x w) \<Longrightarrow> of_char c < (128 :: nat)"
  by (auto simp: append_int_def Let_def dest: dec_digits_ascii)

lemma rfc3339_ascii: "\<forall>c\<in>set (rfc3339 off t). of_char c < (128 :: nat)"
  by (auto simp: rfc3339_def format_zone_def Let_def split_beta dest: append_int_ascii)

lemma query_payload_read:
  assumes "utf8_valid (paramTarget p)" "utf8_valid (paramType p)"
  shows "parse_json (query_payload env q p) =
     Some (JObj [(''range'', JObj [(''from'', JStr (rfc3339 (zone_offset env) (query_time (StartTimestampMs q)))),
                                   (''to'', JStr (rfc3339 (zone_offset env) (query_time (EndTimestampMs q))))]),
                 (''targets'', JObj [(''target'', JStr (paramTarget p)), (''type'', JStr (paramType p))])])"
  using assms
  by (simp add: query_payload_def parse_json_payload utf8_valid_sanitize utf8_valid_ascii rfc3339_ascii)


subsection \<open>Properties\<close>

text \<open>
  C19: every string the encoder writes (\<open>json_string\<close>, the quoted and
  escaped form of a parameter) is read back by a JSON reader as one string
  value, ending exactly at the encoder's closing quote whatever follows, and
  its value is the parameter with each invalid UTF-8 byte replaced by U+FFFD.
\<close>

theorem json_string_roundtrip:
  "parse_value (Suc n) (json_string s @ rest) = Some (JStr (to_valid_utf8 s), rest)"
  using parse_value_string [of n s rest] by (simp add: json_string_def)

text \<open>
  C20: no parameter value can change the shape of the payload: whatever the
  four strings are, the payload of lines 68--78 is read as exactly the object
  \<open>{"range":{"from":..,"to":..},"targets":{"target":..,"type":..}}\<close> with
  the four values in their places.
\<close>

theorem lambda_payload_read:
  "parse_json (lambda_payload from to target typ) =
   Some (JObj [(''range'', JObj [(''from'', JStr (to_valid_utf8 from)), (''to'', JStr (to_valid_utf8 to))]),
               (''targets'', JObj [(''target'', JStr (to_valid_utf8 target)), (''type'', JStr (to_valid_utf8 typ))])])"
  by (rule parse_json_payload)

text \<open>
  C22: the Lambda function receives the query exactly: when the target and
  type matchers are valid UTF-8, the payload \<open>runQuery\<close> sends reads back as
  the two RFC3339 bounds and the two values unchanged.
\<close>

theorem query_payload_roundtrip:
  assumes "utf8_valid (paramTarget p)" "utf8_valid (paramType p)"
  shows "parse_json (query_payload env q p) =
     Some (JObj [(''range'', JObj [(''from'', JStr (rfc3339 (zone_offset env) (query_time (StartTimestampMs q)))),
                                   (''to'', JStr (rfc3339 (zone_offset env) (query_time (EndTimestampMs q))))]),
                 (''targets'', JObj [(''target'', JStr (paramTarget p)), (''type'', JStr (paramType p))])])"
  using query_payload_read [OF assms] .

theorem query_payload_roundtrip_witness:
  "utf8_valid ''t1'' \<and> utf8_valid ''count'' \<and>
   parse_json (query_payload
       \<lparr>lambda_invoke = \<lambda>_ _ _. Inl (GoErr ''unused''), json_unmarshal = \<lambda>_. Inr [], zone_offset = 0\<rparr>
       \<lparr>StartTimestampMs = 1000, EndTimestampMs = 5000, Matchers = []\<rparr>
       \<lparr>metricName = ''foo'', functionName = ''f1'', paramTarget = ''t1'', paramType = ''count''\<rparr>) =
     Some (JObj [(''range'', JObj [(''from'', JStr (rfc3339 0 (query_time 1000))),
                                   (''to'', JStr (rfc3339 0 (query_time 5000)))]),
                 (''targets'', JObj [(''target'', JStr ''t1''), (''type'', JStr ''count'')])])"
proof -
  have v: "utf8_valid ''t1''" "utf8_valid ''count''" by code_simp+
  show ?thesis
    using v query_payload_roundtrip [of "\<lparr>metricName = ''foo'', functionName = ''f1'', paramTarget = ''t1'', paramType = ''count''\<rparr>"
        "\<lparr>lambda_invoke = \<lambda>_ _ _. Inl (GoErr ''unused''), json_unmarshal = \<lambda>_. Inr [], zone_offset = 0\<rparr>"
        "\<lparr>StartTimestampMs = 1000, EndTimestampMs = 5000, Matchers = []\<rparr>"]
    by simp
qed

end
