(* ===== verification/JsonDecode.thy ===== *)
theory JsonDecode
  imports JsonRead Mapper "HOL-Library.Monad_Syntax"
begin

text \<open>
  The decoding of the Lambda reply (src/main.go, lines 94--99:
  \<open>json.Unmarshal(resp.Payload, &jsonResult)\<close> into \<open>lambdaResult\<close>, a
  \<open>[]timeSerie\<close> with \<open>Target string\<close> and \<open>Datapoints [][]int\<close>).
  encoding/json is a library the code calls; it is modelled from its
  contract in two stages, as the library works: the text is first checked
  and read into a JSON value (\<open>json_parse\<close>: white space, literals, the
  number grammar, strings as \<open>JsonRead\<close> reads them, arrays and objects),
  then the value is stored into the Go value (\<open>dec_reply\<close>). Storing keeps
  the first type error and goes on, as \<open>decodeState.saveError\<close> does; the
  error is returned at the end and \<open>runQuery\<close> then returns it.
\<close>

subsection \<open>JSON values and the text reader\<close>

datatype json = JNull | JBool bool | JNumber string | JString string
  | JArray "json list" | JObject "(string \<times> json) list"

definition is_ws :: "char \<Rightarrow> bool" where
  "is_ws c \<longleftrightarrow> of_char c \<in> {32, 9, 10, 13 :: nat}"

definition skip_ws :: "string \<Rightarrow> string" where
  "skip_ws s = dropWhile is_ws s"

definition is_digit :: "char \<Rightarrow> bool" where
  "is_digit c \<longleftrightarrow> 48 \<le> (of_char c :: nat) \<and> (of_char c :: nat) \<le> 57"

text \<open>The number grammar: \<open>-? (0 | [1-9][0-9]*) (.[0-9]+)? ([eE][+-]?[0-9]+)?\<close>.\<close>

definition scan_digits1 :: "string \<Rightarrow> (string \<times> string) option" where
  "scan_digits1 s = (if s \<noteq> [] \<and> is_digit (hd s) then Some (takeWhile is_digit s, dropWhile is_digit s) else None)"

definition scan_int_part :: "string \<Rightarrow> (string \<times> string) option" where
  "scan_int_part s =
     (case s of
        [] \<Rightarrow> None
      | c # t \<Rightarrow> if c = CHR ''0'' then Some ([c], t) else scan_digits1 s)"

definition scan_frac :: "string \<Rightarrow> (string \<times> string) option" where
  "scan_frac s =
     (case s of
        c # t \<Rightarrow> if c = CHR ''.'' then map_option (apfst (Cons c)) (scan_digits1 t) else Some ([], s)
      | [] \<Rightarrow> Some ([], []))"

definition scan_exp :: "string \<Rightarrow> (string \<times> string) option" where
  "scan_exp s =
     (case s of
        c # t \<Rightarrow>
          if c = CHR ''e'' \<or> c = CHR ''E'' then
            (case t of
               d # u \<Rightarrow> if d = CHR ''+'' \<or> d = CHR ''-'' then map_option (apfst (\<lambda>x. c # d # x)) (scan_digits1 u)
                        else map_option (apfst (Cons c)) (scan_digits1 t)
             | [] \<Rightarrow> None)
          else Some ([], s)
      | [] \<Rightarrow> Some ([], []))"

definition scan_number :: "string \<Rightarrow> (string \<times> string) option" where
  "scan_number s =
     (let (sg, s1) = (case s of c # t \<Rightarrow> if c = CHR ''-'' then ([c], t) else ([], s) | [] \<Rightarrow> ([], []))
      in do {
        (ip, s2) \<leftarrow> scan_int_part s1;
        (fp, s3) \<leftarrow> scan_frac s2;
        (ep, s4) \<leftarrow> scan_exp s3;
        Some (sg @ ip @ fp @ ep, s4)
      })"

fun json_value :: "nat \<Rightarrow> string \<Rightarrow> (json \<times> string) option"
and json_elems :: "nat \<Rightarrow> json list \<Rightarrow> string \<Rightarrow> (json list \<times> string) option"
and json_members :: "nat \<Rightarrow> (string \<times> json) list \<Rightarrow> string \<Rightarrow> ((string \<times> json) list \<times> string) option" where
  "json_value 0 s = None"
| "json_value (Suc n) s =
     (case skip_ws s of
        [] \<Rightarrow> None
      | c # r \<Rightarrow>
          if c = CHR ''{'' then
            (case skip_ws r of
               [] \<Rightarrow> None
             | c' # r' \<Rightarrow> if c' = CHR ''}'' then Some (JObject [], r')
                          else map_option (apfst JObject) (json_members n [] r))
          else if c = CHR ''['' then
            (case skip_ws r of
               [] \<Rightarrow> None
             | c' # r' \<Rightarrow> if c' = CHR '']'' then Some (JArray [], r')
                          else map_option (apfst JArray) (json_elems n [] r))
          else if c = dquote then map_option (apfst JString) (json_unquote r)
          else if take 4 (c # r) = ''true'' then Some (JBool True, drop 4 (c # r))
          else if take 5 (c # r) = ''false'' then Some (JBool False, drop 5 (c # r))
          else if take 4 (c # r) = ''null'' then Some (JNull, drop 4 (c # r))
          else map_option (apfst JNumber) (scan_number (c # r)))"
| "json_elems 0 acc s = None"
| "json_elems (Suc n) acc s =
     (case json_value n s of
        None \<Rightarrow> None
      | Some (v, r) \<Rightarrow>
          (case skip_ws r of
             c # r' \<Rightarrow> if c = CHR '','' then json_elems n (acc @ [v]) r'
                      else if c = CHR '']'' then Some (acc @ [v], r') else None
           | [] \<Rightarrow> None))"
| "json_members 0 acc s = None"
| "json_members (Suc n) acc s =
     (case skip_ws s of
        c # r \<Rightarrow>
          if c = dquote then
            (case json_unquote r of
               None \<Rightarrow> None
             | Some (k, r1) \<Rightarrow>
                 (case skip_ws r1 of
                    c1 # r2 \<Rightarrow>
                      if c1 = CHR '':'' then
                        (case json_value n r2 of
                           None \<Rightarrow> None
                         | Some (v, r3) \<Rightarrow>
                             (case skip_ws r3 of
                                c3 # r4 \<Rightarrow> if c3 = CHR '','' then json_members n (acc @ [(k, v)]) r4
                                         else if c3 = CHR ''}'' then Some (acc @ [(k, v)], r4) else None
                              | [] \<Rightarrow> None))
                      else None
                  | [] \<Rightarrow> None))
          else None
      | [] \<Rightarrow> None)"

text \<open>A whole text: one value and nothing but white space after it.\<close>

definition json_parse :: "string \<Rightarrow> json option" where
  "json_parse s =
     (case json_value (Suc (length s)) s of
        Some (v, r) \<Rightarrow> if skip_ws r = [] then Some v else None
      | None \<Rightarrow> None)"

subsection \<open>Storing a JSON value into the Go value\<close>

text \<open>
  \<open>strconv.ParseInt(s, 10, 64)\<close> on a number literal: an optional sign and
  decimal digits only, in the range of int64; a fraction or an exponent fails.
\<close>

definition digit_val :: "char \<Rightarrow> int" where
  "digit_val c = int (of_char c) - 48"

definition sign_split :: "string \<Rightarrow> bool \<times> string" where
  "sign_split s =
     (case s of
        c # t \<Rightarrow> if c = CHR ''-'' then (True, t) else if c = CHR ''+'' then (False, t) else (False, s)
      | [] \<Rightarrow> (False, []))"

definition parse_int64 :: "string \<Rightarrow> int64 option" where
  "parse_int64 s =
     (let (neg, ds) = sign_split s;
          n = foldl (\<lambda>a c. a * 10 + digit_val c) 0 ds;
          v = (if neg then - n else n)
      in if ds \<noteq> [] \<and> list_all is_digit ds \<and> - (2 ^ 63) \<le> v \<and> v < 2 ^ 63 then Some (word_of_int v) else None)"

definition json_kind :: "json \<Rightarrow> string" where
  "json_kind v =
     (case v of JNull \<Rightarrow> ''null'' | JBool _ \<Rightarrow> ''bool'' | JNumber _ \<Rightarrow> ''number'' | JString _ \<Rightarrow> ''string''
      | JArray _ \<Rightarrow> ''array'' | JObject _ \<Rightarrow> ''object'')"

text \<open>\<open>UnmarshalTypeError.Error()\<close>; the struct-field path Go adds is left out.\<close>

definition type_error :: "string \<Rightarrow> string \<Rightarrow> go_error" where
  "type_error what ty = GoErr (''json: cannot unmarshal '' @ what @ '' into Go value of type '' @ ty)"

definition first_error :: "go_error option \<Rightarrow> go_error option \<Rightarrow> go_error option" where
  "first_error e1 e2 = (case e1 of None \<Rightarrow> e2 | Some _ \<Rightarrow> e1)"

text \<open>\<open>literalStore\<close> into an \<open>int\<close>: \<open>null\<close> leaves the value as it is.\<close>

definition dec_int :: "json \<Rightarrow> int64 \<Rightarrow> go_error option \<times> int64" where
  "dec_int v old =
     (case v of
        JNull \<Rightarrow> (None, old)
      | JNumber lit \<Rightarrow>
          (case parse_int64 lit of
             Some n \<Rightarrow> (None, n)
           | None \<Rightarrow> (Some (type_error (''number '' @ lit) ''int''), old))
      | _ \<Rightarrow> (Some (type_error (json_kind v) ''int''), old))"

definition dec_string :: "json \<Rightarrow> string \<Rightarrow> go_error option \<times> string" where
  "dec_string v old =
     (case v of
        JNull \<Rightarrow> (None, old)
      | JString s \<Rightarrow> (None, s)
      | _ \<Rightarrow> (Some (type_error (json_kind v) ''string''), old))"

text \<open>
  \<open>decodeState.array\<close> into a slice: element \<open>i\<close> is decoded into the
  slice's element \<open>i\<close> when there is one, else into a zero value, and the
  slice is cut to the array's length; \<open>null\<close> makes the slice nil.
\<close>

fun dec_elems :: "(json \<Rightarrow> 'a \<Rightarrow> go_error option \<times> 'a) \<Rightarrow> 'a \<Rightarrow> json list \<Rightarrow> 'a list \<Rightarrow> go_error option \<times> 'a list" where
  "dec_elems dec z [] old = (None, [])"
| "dec_elems dec z (v # vs) old =
     (let (e1, x) = dec v (case old of [] \<Rightarrow> z | y # _ \<Rightarrow> y);
          (e2, xs) = dec_elems dec z vs (tl old)
      in (first_error e1 e2, x # xs))"

definition dec_list :: "(json \<Rightarrow> 'a \<Rightarrow> go_error option \<times> 'a) \<Rightarrow> 'a \<Rightarrow> string \<Rightarrow> json \<Rightarrow> 'a list \<Rightarrow> go_error option \<times> 'a list" where
  "dec_list dec z ty v old =
     (case v of
        JNull \<Rightarrow> (None, [])
      | JArray vs \<Rightarrow> dec_elems dec z vs old
      | _ \<Rightarrow> (Some (type_error (json_kind v) ty), old))"

text \<open>
  \<open>decodeState.object\<close> into \<open>timeSerie\<close>: a key names a field when it
  equals the field name or equals it up to ASCII case; other keys are skipped.
\<close>

definition ascii_lower :: "char \<Rightarrow> char" where
  "ascii_lower c =
     (case map_of (zip ''ABCDEFGHIJKLMNOPQRSTUVWXYZ'' ''abcdefghijklmnopqrstuvwxyz'') c of Some d \<Rightarrow> d | None \<Rightarrow> c)"

definition field_match :: "string \<Rightarrow> string \<Rightarrow> bool" where
  "field_match name k \<longleftrightarrow> k = name \<or> map ascii_lower k = map ascii_lower name"

definition dec_datapoints :: "json \<Rightarrow> int64 list list \<Rightarrow> go_error option \<times> int64 list list" where
  "dec_datapoints = dec_list (dec_list dec_int 0 ''[]int'') [] ''[][]int''"

definition dec_field :: "string \<Rightarrow> json \<Rightarrow> timeSerie \<Rightarrow> go_error option \<times> timeSerie" where
  "dec_field k v old =
     (if field_match ''Target'' k then (let (e, t) = dec_string v (Target old) in (e, old\<lparr>Target := t\<rparr>))
      else if field_match ''Datapoints'' k then
        (let (e, d) = dec_datapoints v (Datapoints old) in (e, old\<lparr>Datapoints := d\<rparr>))
      else (None, old))"

fun dec_fields :: "(string \<times> json) list \<Rightarrow> timeSerie \<Rightarrow> go_error option \<times> timeSerie" where
  "dec_fields [] old = (None, old)"
| "dec_fields ((k, v) # ms) old =
     (let (e1, s1) = dec_field k v old;
          (e2, s2) = dec_fields ms s1
      in (first_error e1 e2, s2))"

definition zero_serie :: timeSerie where
  "zero_serie = \<lparr>Target = '''', Datapoints = []\<rparr>"

definition dec_serie :: "json \<Rightarrow> timeSerie \<Rightarrow> go_error option \<times> timeSerie" where
  "dec_serie v old =
     (case v of
        JNull \<Rightarrow> (None, old)
      | JObject ms \<Rightarrow> dec_fields ms old
      | _ \<Rightarrow> (Some (type_error (json_kind v) ''main.timeSerie''), old))"

text \<open>\<open>var jsonResult lambdaResult\<close> (nil) and the value stored into it.\<close>

definition dec_reply :: "json \<Rightarrow> go_error option \<times> lambdaResult" where
  "dec_reply v = dec_list dec_serie zero_serie ''main.lambdaResult'' v []"

definition json_syntax_error :: go_error where
  "json_syntax_error = GoErr ''invalid character in JSON input''"

definition go_unmarshal :: "bytes \<Rightarrow> go_error + lambdaResult" where
  "go_unmarshal s =
     (case json_parse s of
        None \<Rightarrow> Inl json_syntax_error
      | Some v \<Rightarrow> (case dec_reply v of (None, r) \<Rightarrow> Inr r | (Some e, _) \<Rightarrow> Inl e))"

subsection \<open>The reply the spec describes, as a JSON value\<close>

text \<open>
  The backend contract (spec, section 6): an array of objects with a string
  \<open>Target\<close> and integer \<open>Datapoints\<close>; integers are written in decimal
  as \<open>strconv\<close> and every JSON encoder writes them.
\<close>

definition int_json :: "int64 \<Rightarrow> json" where
  "int_json w = JNumber (append_int (sint w) 0)"

definition serie_json :: "timeSerie \<Rightarrow> json" where
  "serie_json s =
     JObject [(''Target'', JString (Target s)), (''Datapoints'', JArray (map (\<lambda>dp. JArray (map int_json dp)) (Datapoints s)))]"

definition reply_json :: "lambdaResult \<Rightarrow> json" where
  "reply_json x = JArray (map serie_json x)"


subsection \<open>Lemmas\<close>

lemma digit_char_props: "k < 10 \<Longrightarrow> digit_val (digit_char k) = int k \<and> is_digit (digit_char k)"
  by (simp add: digit_val_def digit_char_def is_digit_def)

lemma dec_digits_value:
  "foldl (\<lambda>a c. a * 10 + digit_val c) 0 (dec_digits n) = int n \<and> dec_digits n \<noteq> [] \<and>
   list_all is_digit (dec_digits n)"
proof (induction n rule: dec_digits.induct)
  case (1 n)
  show ?case
  proof (cases "n < 10")
    case True
    then show ?thesis using digit_char_props [of n] by (simp add: dec_digits.simps [of n])
  next
    case False
    then have "foldl (\<lambda>a c. a * 10 + digit_val c) 0 (dec_digits (n div 10)) = int (n div 10)"
      "dec_digits (n div 10) \<noteq> []" "list_all is_digit (dec_digits (n div 10))"
      using 1 by simp_all
    moreover have "int (n div 10) * 10 + int (n mod 10) = int n"
      using div_mult_mod_eq [of n 10] by (metis of_nat_add of_nat_mult of_nat_numeral)
    ultimately show ?thesis using False digit_char_props [of "n mod 10"]
      by (simp add: dec_digits.simps [of n])
  qed
qed

lemma dec_digits_hd: "dec_digits n = c # t \<Longrightarrow> c \<noteq> CHR ''-'' \<and> c \<noteq> CHR ''+''"
  using dec_digits_value [of n] by (auto simp: is_digit_def)

lemma parse_int64_append_int: "parse_int64 (append_int (sint w) 0) = Some w"
proof (cases "sint w < 0")
  case True
  obtain c t where d: "dec_digits (nat \<bar>sint w\<bar>) = c # t"
    using dec_digits_value [of "nat \<bar>sint w\<bar>"] by (cases "dec_digits (nat \<bar>sint w\<bar>)") auto
  have "foldl (\<lambda>a c. a * 10 + digit_val c) 0 (dec_digits (nat \<bar>sint w\<bar>)) = - sint w"
    using dec_digits_value [of "nat \<bar>sint w\<bar>"] True by simp
  then show ?thesis using True dec_digits_value [of "nat \<bar>sint w\<bar>"] sint_int64_range [of w, unfolded int64_range_def]
    by (simp add: parse_int64_def sign_split_def append_int_def Let_def)
next
  case False
  obtain c t where d: "dec_digits (nat (sint w)) = c # t"
    using dec_digits_value [of "nat (sint w)"] by (cases "dec_digits (nat (sint w))") auto
  have "foldl (\<lambda>a c. a * 10 + digit_val c) 0 (dec_digits (nat (sint w))) = sint w"
    using dec_digits_value [of "nat (sint w)"] False by simp
  then show ?thesis using False dec_digits_value [of "nat (sint w)"] sint_int64_range [of w, unfolded int64_range_def] d dec_digits_hd [OF d]
    by (simp add: parse_int64_def sign_split_def append_int_def Let_def)
qed

lemma first_error_None [simp]: "first_error None e = e" "first_error e None = e"
  by (simp_all add: first_error_def split: option.split)

lemma dec_elems_map:
  "(\<And>x y. x \<in> set xs \<Longrightarrow> dec (f x) y = (None, x)) \<Longrightarrow> dec_elems dec z (map f xs) old = (None, xs)"
  by (induction xs arbitrary: old) auto

lemma dec_int_null: "dec_int JNull old = (None, old)"
  by (simp add: dec_int_def)

lemma dec_int_json: "dec_int (int_json w) old = (None, w)"
  by (simp add: dec_int_def int_json_def parse_int64_append_int)

lemma dec_datapoints_json:
  "dec_datapoints (JArray (map (\<lambda>dp. JArray (map int_json dp)) dps)) old = (None, dps)"
proof -
  have "\<And>dp y. dec_list dec_int 0 ''[]int'' (JArray (map int_json dp)) y = (None, dp)"
    by (simp add: dec_list_def dec_elems_map dec_int_json)
  then show ?thesis
    by (simp add: dec_datapoints_def dec_list_def dec_elems_map)
qed

lemma dec_serie_json: "dec_serie (serie_json s) old = (None, s)"
  by (simp add: dec_serie_def serie_json_def dec_field_def field_match_def dec_string_def dec_datapoints_json)

lemma dec_reply_json: "dec_reply (reply_json x) = (None, x)"
  by (simp add: dec_reply_def reply_json_def dec_list_def dec_elems_map dec_serie_json)

lemma first_error_Some:
  "e1 \<noteq> None \<Longrightarrow> first_error e1 e2 \<noteq> None" "e2 \<noteq> None \<Longrightarrow> first_error e1 e2 \<noteq> None"
  by (auto simp: first_error_def split: option.split)

lemma dec_elems_Cons_fst:
  "fst (dec_elems dec z (v # vs) old) =
     first_error (fst (dec v (case old of [] \<Rightarrow> z | y # _ \<Rightarrow> y))) (fst (dec_elems dec z vs (tl old)))"
  by (simp add: split_beta)

lemma dec_fields_Cons_fst:
  "fst (dec_fields ((k, v) # ms) old) = first_error (fst (dec_field k v old)) (fst (dec_fields ms (snd (dec_field k v old))))"
  by (simp add: split_beta)

lemma dec_elems_err:
  "v \<in> set vs \<Longrightarrow> (\<And>y. fst (dec v y) \<noteq> None) \<Longrightarrow> fst (dec_elems dec z vs old) \<noteq> None"
proof (induction vs arbitrary: old)
  case (Cons u vs)
  show ?case
  proof (cases "u = v")
    case True
    then show ?thesis unfolding dec_elems_Cons_fst using Cons.prems(2) by (intro first_error_Some(1)) simp
  next
    case False
    then have "v \<in> set vs" using Cons.prems(1) by simp
    then show ?thesis unfolding dec_elems_Cons_fst by (intro first_error_Some(2) Cons.IH Cons.prems(2))
  qed
qed simp

lemma dec_list_err:
  "v \<in> set vs \<Longrightarrow> (\<And>y. fst (dec v y) \<noteq> None) \<Longrightarrow> fst (dec_list dec z ty (JArray vs) old) \<noteq> None"
  by (simp add: dec_list_def dec_elems_err)

lemma field_match_Datapoints: "field_match ''Datapoints'' k \<Longrightarrow> \<not> field_match ''Target'' k"
  by (auto simp: field_match_def)

lemma dec_field_Datapoints:
  "field_match ''Datapoints'' k \<Longrightarrow> fst (dec_field k v old) = fst (dec_datapoints v (Datapoints old))"
  by (simp add: dec_field_def field_match_Datapoints split_beta)

lemma dec_fields_err:
  "(k, v) \<in> set ms \<Longrightarrow> field_match ''Datapoints'' k \<Longrightarrow> (\<And>y. fst (dec_datapoints v y) \<noteq> None) \<Longrightarrow>
   fst (dec_fields ms old) \<noteq> None"
proof (induction ms arbitrary: old)
  case (Cons m ms)
  obtain k' v' where m: "m = (k', v')" by fastforce
  show ?case
  proof (cases "(k', v') = (k, v)")
    case True
    then show ?thesis unfolding m dec_fields_Cons_fst using Cons.prems(2,3)
      by (intro first_error_Some(1)) (simp del: not_None_eq add: dec_field_Datapoints)
  next
    case False
    then have "(k, v) \<in> set ms" using Cons.prems(1) m by auto
    then show ?thesis unfolding m dec_fields_Cons_fst
      by (intro first_error_Some(2) Cons.IH Cons.prems(2,3))
  qed
qed simp

lemma sign_split_keeps: "CHR ''.'' \<in> set s \<Longrightarrow> CHR ''.'' \<in> set (snd (sign_split s))"
  by (cases s) (auto simp: sign_split_def)

lemma parse_int64_frac: "CHR ''.'' \<in> set lit \<Longrightarrow> parse_int64 lit = None"
proof -
  assume "CHR ''.'' \<in> set lit"
  then have "\<not> list_all is_digit (snd (sign_split lit))"
    using sign_split_keeps by (fastforce simp: list_all_iff is_digit_def)
  then show ?thesis by (simp add: parse_int64_def split_beta)
qed

lemma dec_int_frac: "CHR ''.'' \<in> set lit \<Longrightarrow> fst (dec_int (JNumber lit) old) \<noteq> None"
  by (simp add: dec_int_def parse_int64_frac)

lemma dec_reply_frac:
  assumes "JObject ms \<in> set sers" "(k, JArray dps) \<in> set ms" "field_match ''Datapoints'' k"
    "JArray dp \<in> set dps" "JNumber lit \<in> set dp" "CHR ''.'' \<in> set lit"
  shows "fst (dec_reply (JArray sers)) \<noteq> None"
proof -
  have "\<And>y. fst (dec_list dec_int 0 ''[]int'' (JArray dp) y) \<noteq> None"
    by (rule dec_list_err [OF assms(5)]) (rule dec_int_frac [OF assms(6)])
  then have "\<And>y. fst (dec_datapoints (JArray dps) y) \<noteq> None"
    unfolding dec_datapoints_def by (rule dec_list_err [OF assms(4)])
  then have "\<And>y. fst (dec_serie (JObject ms) y) \<noteq> None"
    unfolding dec_serie_def using assms(2,3) by (simp del: not_None_eq add: dec_fields_err)
  then show ?thesis unfolding dec_reply_def by (rule dec_list_err [OF assms(1)])
qed


subsection \<open>Properties\<close>

text \<open>
  C23: the decoder recovers every reply of the backend contract: the JSON
  value of any \<open>lambdaResult\<close> (strings as they are, every int64 in decimal)
  is stored back into exactly that \<open>lambdaResult\<close>, without error.
\<close>

theorem dec_reply_roundtrip: "dec_reply (reply_json x) = (None, x)"
  by (rule dec_reply_json)

text \<open>
  C24: a reply with a fractional number among the datapoints (e.g.
  \<open>[[1.5,1000]]\<close>) is not truncated: \<open>json.Unmarshal\<close> fails with a type
  error, so \<open>runQuery\<close> returns an error and the request fails.
\<close>

theorem go_unmarshal_fraction:
  assumes "json_parse s = Some (JArray sers)" "JObject ms \<in> set sers" "(k, JArray dps) \<in> set ms"
    "field_match ''Datapoints'' k" "JArray dp \<in> set dps" "JNumber lit \<in> set dp" "CHR ''.'' \<in> set lit"
  shows "\<exists>e. go_unmarshal s = Inl e"
proof -
  have "fst (dec_reply (JArray sers)) \<noteq> None" using assms(2-7) by (rule dec_reply_frac)
  then show ?thesis using assms(1) by (auto simp: go_unmarshal_def split: prod.split option.split)
qed

theorem go_unmarshal_fraction_witness:
  "\<exists>e. go_unmarshal ''[{\"Target\":\"t1\",\"Datapoints\":[[1.5,1000]]}]'' = Inl e"
proof -
  have p: "json_parse ''[{\"Target\":\"t1\",\"Datapoints\":[[1.5,1000]]}]'' =
      Some (JArray [JObject [(''Target'', JString ''t1''),
                             (''Datapoints'', JArray [JArray [JNumber ''1.5'', JNumber ''1000'']])]])"
    by code_simp
  show ?thesis
    by (rule go_unmarshal_fraction [OF p, of "[(''Target'', JString ''t1''),
        (''Datapoints'', JArray [JArray [JNumber ''1.5'', JNumber ''1000'']])]" "''Datapoints''"
        "[JArray [JNumber ''1.5'', JNumber ''1000'']]" "[JNumber ''1.5'', JNumber ''1000'']" "''1.5''"])
       (simp_all add: field_match_def)
qed


text \<open>
  C26: the reply's keys are matched to the struct fields without regard to
  ASCII case: \<open>target\<close>/\<open>datapoints\<close> (the spec's data model) and
  \<open>Target\<close>/\<open>Datapoints\<close> (its protocol section) decode alike.
\<close>

theorem dec_serie_key_case:
  assumes "map ascii_lower k1 = ''target''" "map ascii_lower k2 = ''datapoints''"
  shows "dec_serie (JObject [(k1, a), (k2, b)]) old = dec_serie (JObject [(''Target'', a), (''Datapoints'', b)]) old"
proof -
  have l: "map ascii_lower ''Target'' = ''target''" "map ascii_lower ''Datapoints'' = ''datapoints''"
    by (simp_all add: ascii_lower_def)
  have "field_match ''Target'' k1" "\<not> field_match ''Datapoints'' k1"
    "field_match ''Datapoints'' k2" "\<not> field_match ''Target'' k2"
    using assms l by (auto simp: field_match_def)
  then show ?thesis by (simp add: dec_serie_def dec_field_def field_match_def split_beta)
qed

theorem dec_serie_key_case_witness:
  "map ascii_lower ''TARGET'' = ''target'' \<and> map ascii_lower ''datapoints'' = ''datapoints'' \<and>
   dec_serie (JObject [(''TARGET'', JString ''t1''), (''datapoints'', JArray [])]) zero_serie =
   dec_serie (JObject [(''Target'', JString ''t1''), (''Datapoints'', JArray [])]) zero_serie"
proof -
  have l: "map ascii_lower ''TARGET'' = ''target''" "map ascii_lower ''datapoints'' = ''datapoints''"
    by (simp_all add: ascii_lower_def)
  show ?thesis using l dec_serie_key_case [OF l] by simp
qed

end
