(* ===== verification/Wire.thy ===== *)
theory Wire
  imports GoTime
begin

unbundle bit_operations_syntax

text \<open>
  The protobuf wire format as the gogo/protobuf generator (v1.3.2) compiles
  it into the prompb package that src/main.go calls through
  \<open>proto.Unmarshal\<close> (line 170) and \<open>proto.Marshal\<close> (line 191). The
  generated code is not part of the repository: it is modelled from the
  generator's templates. This theory holds what all messages share: the
  base-128 varint reader (the loop every generated \<open>Unmarshal\<close> inlines),
  the value readers per wire type, \<open>skipTypes\<close>, the field loop of an
  \<open>Unmarshal\<close>, parameterised by the message's table of known fields, and
  the encoders of \<open>MarshalTo\<close>. Go's \<open>int\<close> indices are below \<open>2^63\<close>,
  as a slice length is; an index addition that would pass \<open>2^63\<close> wraps
  negative in Go and is rejected by the generated check \<open>iNdEx < 0\<close>.
\<close>

subsection \<open>Errors\<close>

definition err_int_overflow :: go_error where
  "err_int_overflow = GoErr ''proto: integer overflow''"

definition err_unexpected_eof :: go_error where
  "err_unexpected_eof = GoErr ''unexpected EOF''"

definition err_invalid_length :: go_error where
  "err_invalid_length = GoErr ''proto: negative length found during unmarshaling''"

definition err_end_of_group :: go_error where
  "err_end_of_group = GoErr ''proto: unexpected end of group''"

text \<open>\<open>iNdEx + k\<close> on Go's 64-bit \<open>int\<close> leaves the non-negative range.\<close>

definition index_overflows :: "nat \<Rightarrow> int \<Rightarrow> bool" where
  "index_overflows i k \<longleftrightarrow> 2 ^ 63 \<le> int i + k"

subsection \<open>Varints\<close>

text \<open>
  The inlined loop \<open>for shift := uint(0); ; shift += 7\<close>: overflow once the
  shift reaches 64, end of input, then \<open>wire |= uint64(b & 0x7F) << shift\<close>
  until a byte below \<open>0x80\<close>. The result is the value and the next index.
\<close>

function varint_at :: "bytes \<Rightarrow> nat \<Rightarrow> nat \<Rightarrow> 64 word \<Rightarrow> go_error + 64 word \<times> nat" where
  "varint_at d i shift acc =
     (if 64 \<le> shift then Inl err_int_overflow
      else if length d \<le> i then Inl err_unexpected_eof
      else
        let b = of_char (d ! i) :: nat;
            acc' = acc OR push_bit shift (word_of_nat (b AND 127))
        in if b < 128 then Inr (acc', Suc i) else varint_at d (Suc i) (shift + 7) acc')"
  by pat_completeness auto
termination by (relation "measure (\<lambda>(d, i, shift, acc). 64 - shift)") auto

declare varint_at.simps [simp del]

text \<open>\<open>encodeVarintTypes\<close>: seven bits at a time, low group first.\<close>

function enc_varint :: "64 word \<Rightarrow> bytes" where
  "enc_varint v =
     (if v < 128 then [char_of (unat v)]
      else char_of (unat ((v AND 127) OR 128)) # enc_varint (drop_bit 7 v))"
  by pat_completeness auto
termination
proof (relation "measure unat")
  fix v :: "64 word" assume "\<not> v < 128"
  then have "128 \<le> unat v" by (simp add: word_less_nat_alt)
  then show "(drop_bit 7 v, v) \<in> measure unat"
    by (simp add: drop_bit_eq_div unat_div)
qed simp

declare enc_varint.simps [simp del]

text \<open>The same encoder on the unsigned value, the form the proofs use.\<close>

fun enc_nat :: "nat \<Rightarrow> bytes" where
  "enc_nat n = (if n < 128 then [char_of n] else char_of (n mod 128 + 128) # enc_nat (n div 128))"

declare enc_nat.simps [simp del]

subsection \<open>Fixed-width values\<close>

text \<open>\<open>encoding/binary.LittleEndian\<close>: byte \<open>k\<close> carries bits \<open>8k\<close> to \<open>8k+7\<close>.\<close>

primrec le_enc :: "nat \<Rightarrow> nat \<Rightarrow> bytes" where
  "le_enc 0 n = []"
| "le_enc (Suc k) n = char_of (n mod 256) # le_enc k (n div 256)"

primrec le_dec :: "bytes \<Rightarrow> nat" where
  "le_dec [] = 0"
| "le_dec (b # bs) = of_char b + 256 * le_dec bs"

subsection \<open>Field values\<close>

text \<open>The four wire types a proto3 message uses: 0, 1, 2 and 5.\<close>

datatype wire_val = WVarint "64 word" | WFixed64 "64 word" | WBytes bytes | WFixed32 "32 word"

fun wire_type_of :: "wire_val \<Rightarrow> nat" where
  "wire_type_of (WVarint _) = 0"
| "wire_type_of (WFixed64 _) = 1"
| "wire_type_of (WBytes _) = 2"
| "wire_type_of (WFixed32 _) = 5"

text \<open>
  The value of a known field, read after its key: the varint of a scalar, the
  eight bytes of a \<open>double\<close> (\<open>if (iNdEx + 8) > l\<close>), or a length-delimited
  string or message with its checks \<open>intStringLen < 0\<close>, \<open>postIndex < 0\<close>
  and \<open>postIndex > l\<close>.
\<close>

definition read_value :: "nat \<Rightarrow> bytes \<Rightarrow> nat \<Rightarrow> go_error + wire_val \<times> nat" where
  "read_value wt d i =
     (if wt = 0 then
        (case varint_at d i 0 0 of Inl e \<Rightarrow> Inl e | Inr (v, j) \<Rightarrow> Inr (WVarint v, j))
      else if wt = 1 then
        (if length d < i + 8 then Inl err_unexpected_eof
         else Inr (WFixed64 (word_of_nat (le_dec (take 8 (drop i d)))), i + 8))
      else if wt = 5 then
        (if length d < i + 4 then Inl err_unexpected_eof
         else Inr (WFixed32 (word_of_nat (le_dec (take 4 (drop i d)))), i + 4))
      else
        (case varint_at d i 0 0 of
           Inl e \<Rightarrow> Inl e
         | Inr (len, j) \<Rightarrow>
             if sint len < 0 then Inl err_invalid_length
             else if index_overflows j (sint len) then Inl err_invalid_length
             else if length d < j + nat (sint len) then Inl err_unexpected_eof
             else Inr (WBytes (take (nat (sint len)) (drop j d)), j + nat (sint len))))"

subsection \<open>Keys\<close>

text \<open>\<open>fieldNum := int32(wire >> 3)\<close> and \<open>wireType := int(wire & 0x7)\<close>.\<close>

definition key_field :: "64 word \<Rightarrow> int" where
  "key_field wire = sint (ucast (drop_bit 3 wire) :: 32 word)"

definition key_wire_type :: "64 word \<Rightarrow> nat" where
  "key_wire_type wire = unat (wire AND 7)"


lemma varint_at_advances: "varint_at d i shift acc = Inr (v, j) \<Longrightarrow> i < j"
proof (induction d i shift acc rule: varint_at.induct)
  case (1 d i shift acc)
  then show ?case
    by (subst (asm) varint_at.simps) (fastforce simp: Let_def split: if_splits)
qed

lemma read_value_advances: "read_value wt d i = Inr (v, j) \<Longrightarrow> i < j"
  unfolding read_value_def
  by (auto split: if_splits sum.splits prod.splits dest: varint_at_advances)

subsection \<open>Skipping an unknown field\<close>

text \<open>
  One case of the \<open>switch wireType\<close> of \<open>skipTypes\<close>: the index after the
  field's value and the group depth; \<open>iNdEx < 0\<close> after an addition is the
  overflow of \<open>index_overflows\<close>.
\<close>

definition skip_payload :: "nat \<Rightarrow> bytes \<Rightarrow> nat \<Rightarrow> nat \<Rightarrow> go_error + nat \<times> nat" where
  "skip_payload wt d i depth =
     (if wt = 0 then
        (case varint_at d i 0 0 of Inl e \<Rightarrow> Inl e | Inr (_, j) \<Rightarrow> Inr (j, depth))
      else if wt = 1 then
        (if index_overflows i 8 then Inl err_invalid_length else Inr (i + 8, depth))
      else if wt = 2 then
        (case varint_at d i 0 0 of
           Inl e \<Rightarrow> Inl e
         | Inr (len, j) \<Rightarrow>
             if sint len < 0 then Inl err_invalid_length
             else if index_overflows j (sint len) then Inl err_invalid_length
             else Inr (j + nat (sint len), depth))
      else if wt = 3 then Inr (i, Suc depth)
      else if wt = 4 then (if depth = 0 then Inl err_end_of_group else Inr (i, depth - 1))
      else if wt = 5 then
        (if index_overflows i 4 then Inl err_invalid_length else Inr (i + 4, depth))
      else Inl (GoErr (''proto: illegal wireType '' @ append_int (int wt) 0)))"

lemma skip_payload_mono: "skip_payload wt d i depth = Inr (j, depth') \<Longrightarrow> i \<le> j"
  unfolding skip_payload_def
  by (auto split: if_splits sum.splits prod.splits dest: varint_at_advances)

text \<open>
  The loop of \<open>skipTypes(dAtA)\<close>: read a key, skip its value, and return
  the index once the group depth is back at zero; running off the end is
  \<open>io.ErrUnexpectedEOF\<close>.
\<close>

function skip_loop :: "bytes \<Rightarrow> nat \<Rightarrow> nat \<Rightarrow> go_error + nat" where
  "skip_loop d i depth =
     (if length d \<le> i then Inl err_unexpected_eof
      else
        case varint_at d i 0 0 of
          Inl e \<Rightarrow> Inl e
        | Inr (wire, i1) \<Rightarrow>
            (case skip_payload (key_wire_type wire) d i1 depth of
               Inl e \<Rightarrow> Inl e
             | Inr (i2, depth') \<Rightarrow> if depth' = 0 then Inr i2 else skip_loop d i2 depth'))"
  by pat_completeness auto
termination
proof (relation "measure (\<lambda>(d, i, depth). length d - i)", goal_cases)
  case (2 d i depth x wire i1 y i2 depth')
  then have "i < i1" "i1 \<le> i2"
    using varint_at_advances skip_payload_mono by blast+
  with 2 show ?case by (cases y) simp
qed simp

declare skip_loop.simps [simp del]

lemma skip_loop_advances: "skip_loop d i depth = Inr n \<Longrightarrow> i < n"
proof (induction d i depth rule: skip_loop.induct)
  case (1 d i depth)
  then show ?case
    by (subst (asm) skip_loop.simps)
      (fastforce split: if_splits sum.splits prod.splits dest: varint_at_advances skip_payload_mono)
qed

subsection \<open>The field loop of a generated Unmarshal\<close>

text \<open>
  A message's generated \<open>Unmarshal\<close> is one \<open>switch fieldNum\<close>; its known
  cases differ only in the field name of the error message, the wire type
  they accept and the assignment they make, which may itself run a nested
  message's \<open>Unmarshal\<close> and fail. \<open>field_decl\<close> is one such case.
\<close>

record 'm field_decl =
  fd_name :: string
  fd_wire :: nat
  fd_set :: "wire_val \<Rightarrow> 'm \<Rightarrow> go_error + 'm"

text \<open>
  \<open>for iNdEx < l\<close>: read the key, reject the end-group wire type and field
  numbers \<open>\<le> 0\<close>, then either the known case (wire type check, value,
  assignment) or the \<open>default\<close> case that calls \<open>skipTypes\<close> on
  \<open>dAtA[iNdEx:]\<close> from the key's first byte; after the loop,
  \<open>iNdEx > l\<close> is \<open>io.ErrUnexpectedEOF\<close>.
\<close>

function unmarshal_loop ::
  "string \<Rightarrow> (int \<Rightarrow> 'm field_decl option) \<Rightarrow> bytes \<Rightarrow> nat \<Rightarrow> 'm \<Rightarrow> go_error + 'm" where
  "unmarshal_loop msg sch d i m =
     (if length d \<le> i then (if length d < i then Inl err_unexpected_eof else Inr m)
      else
        case varint_at d i 0 0 of
          Inl e \<Rightarrow> Inl e
        | Inr (wire, i1) \<Rightarrow>
            let fieldNum = key_field wire; wireType = key_wire_type wire in
            if wireType = 4 then
              Inl (GoErr (''proto: '' @ msg @ '': wiretype end group for non-group''))
            else if fieldNum \<le> 0 then
              Inl (GoErr (''proto: '' @ msg @ '': illegal tag '' @ append_int fieldNum 0 @
                          '' (wire type '' @ append_int (uint wire) 0 @ '')''))
            else
              case sch fieldNum of
                Some fd \<Rightarrow>
                  if wireType \<noteq> fd_wire fd then
                    Inl (GoErr (''proto: wrong wireType = '' @ append_int (int wireType) 0 @
                                '' for field '' @ fd_name fd))
                  else
                    (case read_value wireType d i1 of
                       Inl e \<Rightarrow> Inl e
                     | Inr (v, i2) \<Rightarrow>
                         (case fd_set fd v m of
                            Inl e \<Rightarrow> Inl e
                          | Inr m' \<Rightarrow> unmarshal_loop msg sch d i2 m'))
              | None \<Rightarrow>
                  (case skip_loop (drop i d) 0 0 of
                     Inl e \<Rightarrow> Inl e
                   | Inr skippy \<Rightarrow>
                       if index_overflows i (int skippy) then Inl err_invalid_length
                       else if length d < i + skippy then Inl err_unexpected_eof
                       else unmarshal_loop msg sch d (i + skippy) m))"
  by pat_completeness auto
termination by (relation "measure (\<lambda>(msg, sch, d, i, m). length d - i)")
    (fastforce dest: varint_at_advances read_value_advances skip_loop_advances)+

declare unmarshal_loop.simps [simp del]

text \<open>
  The field-wise reading a decoder promises: each field of the message, in
  order, is assigned by its known case, and unknown fields are passed over.
\<close>

fun apply_fields :: "(int \<Rightarrow> 'm field_decl option) \<Rightarrow> (nat \<times> wire_val) list \<Rightarrow> 'm \<Rightarrow> go_error + 'm" where
  "apply_fields sch [] m = Inr m"
| "apply_fields sch ((f, v) # fs) m =
     (case sch (int f) of
        None \<Rightarrow> apply_fields sch fs m
      | Some fd \<Rightarrow> (case fd_set fd v m of Inl e \<Rightarrow> Inl e | Inr m' \<Rightarrow> apply_fields sch fs m'))"

text \<open>
  The fields a decoder reads as written: field numbers in \<open>1 .. 2^28 - 1\<close>,
  each known field with the wire type its case accepts.
\<close>

definition wf_fields :: "(int \<Rightarrow> 'm field_decl option) \<Rightarrow> (nat \<times> wire_val) list \<Rightarrow> bool" where
  "wf_fields sch fs \<longleftrightarrow>
     list_all (\<lambda>(f, v). 0 < f \<and> f < 2 ^ 28 \<and>
                 (case sch (int f) of None \<Rightarrow> True | Some fd \<Rightarrow> fd_wire fd = wire_type_of v)) fs"

subsection \<open>Encoding\<close>

text \<open>
  What \<open>MarshalTo\<close> writes for one field: the key \<open>fieldNum << 3 | wireType\<close>
  as a varint, then the value: a varint, eight or four little-endian bytes,
  or the length and the bytes.
\<close>

fun enc_payload :: "wire_val \<Rightarrow> bytes" where
  "enc_payload (WVarint v) = enc_varint v"
| "enc_payload (WFixed64 w) = le_enc 8 (unat w)"
| "enc_payload (WBytes b) = enc_varint (word_of_nat (length b)) @ b"
| "enc_payload (WFixed32 w) = le_enc 4 (unat w)"

definition enc_field :: "nat \<Rightarrow> wire_val \<Rightarrow> bytes" where
  "enc_field f v = enc_varint (word_of_nat (f * 8 + wire_type_of v)) @ enc_payload v"

definition enc_fields :: "(nat \<times> wire_val) list \<Rightarrow> bytes" where
  "enc_fields fs = concat (map (\<lambda>(f, v). enc_field f v) fs)"


subsection \<open>Varint lemmas\<close>

lemma nat_and_127: "(n::nat) AND 127 = n mod 128"
proof -
  have "(127::nat) = mask 7" by (simp add: mask_eq_exp_minus_1)
  then have "n AND 127 = take_bit 7 n" by (simp only: take_bit_eq_mask)
  then show ?thesis by (simp add: take_bit_eq_mod)
qed

lemma or_push_bit_add:
  assumes "a < 2 ^ s"
  shows "(word_of_nat a :: 'a::len word) OR push_bit s (word_of_nat b) = word_of_nat (a + b * 2 ^ s)"
proof -
  have "a AND push_bit s b = 0"
  proof -
    have "take_bit s a = a" using assms by (simp add: take_bit_nat_eq_self_iff)
    then have "a AND push_bit s b = take_bit s a AND push_bit s b" by simp
    also have "\<dots> = 0" by (simp add: bit_eq_iff bit_and_iff bit_take_bit_iff bit_push_bit_iff)
    finally show ?thesis .
  qed
  then have "a + push_bit s b = a OR push_bit s b" by (rule disjunctive_add_eq_or)
  then show ?thesis by (simp add: of_nat_or_eq push_bit_of_nat push_bit_eq_mult)
qed


lemma word_and_127: "unat ((v::64 word) AND 127) = unat v mod 128"
proof -
  have "(127::64 word) = mask 7" by (simp add: mask_eq_exp_minus_1)
  then have "v AND 127 = take_bit 7 v" by (simp only: take_bit_eq_mask)
  then show ?thesis by (simp add: unsigned_take_bit_eq take_bit_eq_mod unat_mod)
qed

lemma unat_byte_cont: "unat (((v::64 word) AND 127) OR 128) = unat v mod 128 + 128"
proof -
  have "(v AND 127) AND 128 = 0" by (simp add: and.assoc)
  then have "(v AND 127) OR 128 = (v AND 127) + 128" by (simp add: disjunctive_add_eq_or)
  moreover have "unat (v AND 127) + unat (128::64 word) < 2 ^ LENGTH(64)"
    by (simp add: word_and_127)
  then have "unat ((v AND 127) + 128) = unat (v AND 127) + unat (128::64 word)"
    by (simp only: unat_add_lem)
  ultimately show ?thesis by (simp add: word_and_127)
qed

lemma enc_varint_nat: "enc_varint v = enc_nat (unat v)"
proof (induction v rule: enc_varint.induct)
  case (1 v)
  show ?case
  proof (cases "v < 128")
    case True
    then show ?thesis by (simp add: enc_varint.simps enc_nat.simps word_less_nat_alt)
  next
    case False
    then have "\<not> unat v < 128" by (simp add: word_less_nat_alt)
    moreover have "unat (drop_bit 7 v) = unat v div 128" by (simp add: drop_bit_eq_div unat_div)
    ultimately show ?thesis
      using 1 False by (simp add: enc_varint.simps [of v] enc_nat.simps [of "unat v"] unat_byte_cont)
  qed
qed


lemma of_char_byte: "n < 256 \<Longrightarrow> of_char (char_of n :: char) = (n::nat)"
  by (simp add: of_char_of)

lemma varint_step_arith:
  assumes "a < 2 ^ s"
  shows "a + (n mod 128) * 2 ^ s < (2::nat) ^ (s + 7)"
    and "a + (n mod 128) * 2 ^ s + (n div 128) * 2 ^ (s + 7) = a + n * 2 ^ s"
proof -
  have "(n mod 128) * 2 ^ s \<le> 127 * 2 ^ s" by simp
  then have "a + (n mod 128) * 2 ^ s < 2 ^ s + 127 * 2 ^ s" using assms by linarith
  then show "a + (n mod 128) * 2 ^ s < (2::nat) ^ (s + 7)" by (simp add: power_add)
  define X :: nat where "X = 2 ^ s"
  have X7: "(2::nat) ^ (s + 7) = 128 * X" by (simp add: X_def power_add)
  have "(n mod 128) * X + (n div 128) * (128 * X) = (n mod 128 + 128 * (n div 128)) * X"
    by (simp only: distrib_right mult.assoc mult.left_commute)
  also have "\<dots> = n * X" by (simp only: mod_mult_div_eq)
  finally have "n * 2 ^ s = (n mod 128) * 2 ^ s + (n div 128) * 2 ^ (s + 7)"
    unfolding X7 X_def by simp
  then show "a + (n mod 128) * 2 ^ s + (n div 128) * 2 ^ (s + 7) = a + n * 2 ^ s" by simp
qed

lemma varint_at_last:
  "shift < 64 \<Longrightarrow> i < length d \<Longrightarrow> of_char (d ! i) < (128::nat) \<Longrightarrow>
   varint_at d i shift acc = Inr (acc OR push_bit shift (word_of_nat (of_char (d ! i) AND 127)), Suc i)"
  by (subst varint_at.simps) (simp add: Let_def)

lemma varint_at_cont:
  "shift < 64 \<Longrightarrow> i < length d \<Longrightarrow> \<not> of_char (d ! i) < (128::nat) \<Longrightarrow>
   varint_at d i shift acc =
   varint_at d (Suc i) (shift + 7) (acc OR push_bit shift (word_of_nat (of_char (d ! i) AND 127)))"
  by (subst varint_at.simps) (simp add: Let_def)

lemma varint_at_enc_nat:
  "n < 2 ^ (64 - s) \<Longrightarrow> s < 64 \<Longrightarrow> a < 2 ^ s \<Longrightarrow>
   varint_at (p @ enc_nat n @ r) (length p) s (word_of_nat a) =
   Inr (word_of_nat (a + n * 2 ^ s), length p + length (enc_nat n))"
proof (induction n arbitrary: p s a rule: enc_nat.induct)
  case (1 n)
  show ?case
  proof (cases "n < 128")
    case True
    then have e: "enc_nat n = [char_of n]" by (simp add: enc_nat.simps [of n])
    have b: "of_char ((p @ enc_nat n @ r) ! length p) = n" using True by (simp add: e of_char_byte)
    have "varint_at (p @ enc_nat n @ r) (length p) s (word_of_nat a) =
          Inr (word_of_nat a OR push_bit s (word_of_nat (of_char ((p @ enc_nat n @ r) ! length p) AND 127)),
               Suc (length p))"
      using True by (intro varint_at_last) (simp_all add: 1(3) e)
    then show ?thesis using True 1(4) by (simp add: b e nat_and_127 or_push_bit_add)
  next
    case False
    define c where "c = (char_of (n mod 128 + 128) :: char)"
    have c: "of_char c = n mod 128 + 128" by (simp add: c_def of_char_byte)
    have "2 ^ 7 \<le> n" using False by simp
    then have "(2::nat) ^ 7 < 2 ^ (64 - s)" using 1(2) by linarith
    then have s7: "s + 7 < 64" using power_less_imp_less_exp [of "2::nat" 7 "64 - s"] by simp
    have eq: "(64 - (s + 7)) + 7 = 64 - s" using s7 by simp
    have "(2::nat) ^ (64 - s) = 2 ^ (64 - (s + 7)) * 2 ^ 7"
      by (simp only: power_add [symmetric] eq)
    then have n7: "n div 128 < 2 ^ (64 - (s + 7))"
      using 1(2) by (simp add: less_mult_imp_div_less)
    have e: "p @ enc_nat n @ r = (p @ [c]) @ enc_nat (n div 128) @ r"
      using False by (simp add: enc_nat.simps [of n] c_def)
    have acc: "word_of_nat a OR push_bit s (word_of_nat ((n mod 128 + 128) AND 127))
               = (word_of_nat (a + (n mod 128) * 2 ^ s) :: 64 word)"
      using 1(4) by (simp add: nat_and_127 or_push_bit_add)
    have IH: "varint_at ((p @ [c]) @ enc_nat (n div 128) @ r) (length (p @ [c])) (s + 7)
                (word_of_nat (a + (n mod 128) * 2 ^ s))
              = Inr (word_of_nat (a + n * 2 ^ s), length (p @ [c]) + length (enc_nat (n div 128)))"
      using 1(1) [OF False n7 s7 varint_step_arith(1) [OF 1(4), of n], of "p @ [c]"]
      unfolding varint_step_arith(2) [OF 1(4), of n] .
    have len: "length (p @ [c]) + length (enc_nat (n div 128)) = length p + length (enc_nat n)"
      using False by (simp add: enc_nat.simps [of n])
    have d: "((p @ [c]) @ enc_nat (n div 128) @ r) ! length p = c" by (simp add: nth_append)
    have "varint_at ((p @ [c]) @ enc_nat (n div 128) @ r) (length p) s (word_of_nat a) =
          varint_at ((p @ [c]) @ enc_nat (n div 128) @ r) (Suc (length p)) (s + 7)
            (word_of_nat a OR push_bit s (word_of_nat (of_char (((p @ [c]) @ enc_nat (n div 128) @ r) ! length p) AND 127)))"
      by (rule varint_at_cont) (simp_all add: 1(3) d c)
    then have step: "varint_at ((p @ [c]) @ enc_nat (n div 128) @ r) (length p) s (word_of_nat a) =
          varint_at ((p @ [c]) @ enc_nat (n div 128) @ r) (Suc (length p)) (s + 7)
                (word_of_nat (a + (n mod 128) * 2 ^ s))"
      unfolding d c acc .
    have l1: "length (p @ [c]) = Suc (length p)" by simp
    show ?thesis unfolding e step using IH len unfolding l1 by (simp only:)
  qed
qed


lemma enc_nat_length: "n < 2 ^ (7 * k) \<Longrightarrow> 0 < k \<Longrightarrow> length (enc_nat n) \<le> k"
proof (induction n arbitrary: k rule: enc_nat.induct)
  case (1 n)
  show ?case
  proof (cases "n < 128")
    case True
    then show ?thesis using 1(3) by (simp add: enc_nat.simps [of n])
  next
    case False
    have "(2::nat) ^ 7 < 2 ^ (7 * k)" using False 1(2) by simp
    then have "7 < 7 * k" using power_less_imp_less_exp [of "2::nat" 7 "7 * k"] by simp
    then obtain k' where k: "k = Suc k'" "0 < k'" by (cases k) auto
    have "n div 128 < 2 ^ (7 * k')"
      using 1(2) k by (simp add: less_mult_imp_div_less power_add mult.commute)
    then have "length (enc_nat (n div 128)) \<le> k'" using 1(1) [OF False] k(2) by blast
    then show ?thesis using False k by (simp add: enc_nat.simps [of n])
  qed
qed

lemma varint_roundtrip_at:
  "varint_at (p @ enc_varint v @ r) (length p) 0 0 = Inr (v, length p + length (enc_varint v))"
proof -
  have "unat v < 2 ^ (64 - 0)" using unsigned_less [of v] by simp
  then show ?thesis using varint_at_enc_nat [of "unat v" 0 0 p r] by (simp add: enc_varint_nat)
qed

lemma enc_varint_length: "length (enc_varint v) \<le> 10"
proof -
  have "unat v < 2 ^ 64" using unsigned_less [of v] by simp
  then have "unat v < 2 ^ (7 * 10)" by simp
  then show ?thesis by (simp add: enc_varint_nat enc_nat_length)
qed

lemma varint_at_cont_run:
  "list_all (\<lambda>b. 128 \<le> (of_char b :: nat)) bs \<Longrightarrow> s + 7 * length bs \<le> 70 \<Longrightarrow>
   \<exists>acc'. varint_at (p @ bs @ r) (length p) s acc =
           varint_at (p @ bs @ r) (length p + length bs) (s + 7 * length bs) acc'"
proof (induction bs arbitrary: p s acc)
  case Nil
  then show ?case by auto
next
  case (Cons b bs)
  have "varint_at (p @ (b # bs) @ r) (length p) s acc =
        varint_at ((p @ [b]) @ bs @ r) (length (p @ [b])) (s + 7)
          (acc OR push_bit s (word_of_nat (of_char b AND 127)))"
    using Cons(2,3) by (subst varint_at_cont) (simp_all add: nth_append)
  moreover obtain acc' where
    "varint_at ((p @ [b]) @ bs @ r) (length (p @ [b])) (s + 7)
       (acc OR push_bit s (word_of_nat (of_char b AND 127))) =
     varint_at ((p @ [b]) @ bs @ r) (length (p @ [b]) + length bs) (s + 7 + 7 * length bs) acc'"
    using Cons(1) [where p = "p @ [b]" and s = "s + 7"] Cons(2,3) by auto
  ultimately show ?case by (auto simp: algebra_simps)
qed


lemma varint_at_overlong:
  assumes "length bs = 10" "list_all (\<lambda>b. 128 \<le> (of_char b :: nat)) bs"
  shows "varint_at (p @ bs @ r) (length p) 0 acc = Inl err_int_overflow"
proof -
  obtain acc' where "varint_at (p @ bs @ r) (length p) 0 acc =
                     varint_at (p @ bs @ r) (length p + length bs) (0 + 7 * length bs) acc'"
    using varint_at_cont_run [OF assms(2), of 0 p r acc] assms(1) by auto
  then show ?thesis using assms(1) by (simp add: varint_at.simps)
qed

lemma varint_at_truncated:
  assumes "length bs < 10" "list_all (\<lambda>b. 128 \<le> (of_char b :: nat)) bs"
  shows "varint_at (p @ bs) (length p) 0 acc = Inl err_unexpected_eof"
proof -
  obtain acc' where "varint_at (p @ bs @ []) (length p) 0 acc =
                     varint_at (p @ bs @ []) (length p + length bs) (0 + 7 * length bs) acc'"
    using varint_at_cont_run [OF assms(2), of 0 p "[]" acc] assms(1) by auto
  then show ?thesis using assms(1) by (simp add: varint_at.simps)
qed

subsection \<open>Fixed-width and key lemmas\<close>

lemma le_dec_enc: "le_dec (le_enc k n) = n mod 256 ^ k"
proof (induction k arbitrary: n)
  case 0
  then show ?case by simp
next
  case (Suc k)
  have "n mod 256 + 256 * (n div 256 mod 256 ^ k) = n mod (256 * 256 ^ k)"
    by (simp add: mod_mult2_eq)
  then show ?case using Suc by (simp add: of_char_byte)
qed

lemma le_enc_length [simp]: "length (le_enc k n) = k"
  by (induction k arbitrary: n) simp_all

lemma le_dec_enc64: "word_of_nat (le_dec (le_enc 8 (unat w))) = (w :: 64 word)"
proof -
  have "unat w < 256 ^ 8" using unsigned_less [of w] by simp
  then show ?thesis by (simp add: le_dec_enc)
qed

lemma le_dec_enc32: "word_of_nat (le_dec (le_enc 4 (unat w))) = (w :: 32 word)"
proof -
  have "unat w < 256 ^ 4" using unsigned_less [of w] by simp
  then show ?thesis by (simp add: le_dec_enc)
qed

lemma sint32_small: "n < 2 ^ 31 \<Longrightarrow> sint (word_of_nat n :: 32 word) = int n"
  by (simp add: sint_uint signed_take_bit_int_eq_self take_bit_nat_eq_self unsigned_of_nat)

lemma sint64_small: "n < 2 ^ 63 \<Longrightarrow> sint (word_of_nat n :: 64 word) = int n"
  by (simp add: sint_uint signed_take_bit_int_eq_self take_bit_nat_eq_self unsigned_of_nat)

lemma unat64_small: "n < 2 ^ 64 \<Longrightarrow> unat (word_of_nat n :: 64 word) = n"
  by (simp add: unsigned_of_nat take_bit_nat_eq_self)

lemma key_field_nat:
  assumes "f * 8 + wt < 2 ^ 64" "wt < 8"
  shows "key_field (word_of_nat (f * 8 + wt)) = sint (word_of_nat f :: 32 word)"
proof -
  define v :: "64 word" where "v = word_of_nat (f * 8 + wt)"
  have uv: "unat v = f * 8 + wt" unfolding v_def using assms by (intro unat64_small) simp
  have "unat (drop_bit 3 v) = f" using assms(2) by (simp add: drop_bit_eq_div unat_div uv)
  then have "unat (ucast (drop_bit 3 v) :: 32 word) = f mod 2 ^ 32"
    by (simp add: unsigned_ucast_eq take_bit_eq_mod)
  then have "(ucast (drop_bit 3 v) :: 32 word) = word_of_nat f"
    by (simp add: word_unat_eq_iff unsigned_of_nat take_bit_eq_mod)
  then show ?thesis unfolding key_field_def v_def by simp
qed

lemma key_wire_type_nat:
  assumes "f * 8 + wt < 2 ^ 64" "wt < 8"
  shows "key_wire_type (word_of_nat (f * 8 + wt)) = wt"
proof -
  define v :: "64 word" where "v = word_of_nat (f * 8 + wt)"
  have uv: "unat v = f * 8 + wt" unfolding v_def using assms by (intro unat64_small) simp
  have "(7::64 word) = mask 3" by (simp add: mask_eq_exp_minus_1)
  then have "v AND 7 = take_bit 3 v" by (simp only: take_bit_eq_mask)
  then have "unat (v AND 7) = take_bit 3 (unat v)" by (simp only: unsigned_take_bit_eq)
  then have "unat (v AND 7) = (f * 8 + wt) mod 8" by (simp only: uv take_bit_eq_mod) simp
  then show ?thesis using assms(2) unfolding key_wire_type_def v_def by simp
qed

lemma key_decode:
  assumes "f < 2 ^ 28" "wt < 8"
  shows "key_field (word_of_nat (f * 8 + wt)) = int f"
    and "key_wire_type (word_of_nat (f * 8 + wt)) = wt"
proof -
  have l: "f * 8 + wt < 2 ^ 64" using assms by simp
  show "key_field (word_of_nat (f * 8 + wt)) = int f"
    using key_field_nat [OF l assms(2)] assms(1) by (simp add: sint32_small)
  show "key_wire_type (word_of_nat (f * 8 + wt)) = wt" using key_wire_type_nat [OF l assms(2)] .
qed


subsection \<open>Reading what was written\<close>

lemma read_value_enc:
  assumes "length (p @ enc_payload v @ r) < 2 ^ 63"
  shows "read_value (wire_type_of v) (p @ enc_payload v @ r) (length p) =
         Inr (v, length p + length (enc_payload v))"
proof (cases v)
  case (WVarint w)
  then show ?thesis by (simp add: read_value_def varint_roundtrip_at)
next
  case (WFixed64 w)
  have "take 8 (drop (length p) (p @ enc_payload v @ r)) = le_enc 8 (unat w)"
    using WFixed64 by simp
  then show ?thesis using WFixed64 by (simp add: read_value_def le_dec_enc64)
next
  case (WFixed32 w)
  have "take 4 (drop (length p) (p @ enc_payload v @ r)) = le_enc 4 (unat w)"
    using WFixed32 by simp
  then show ?thesis using WFixed32 by (simp add: read_value_def le_dec_enc32)
next
  case (WBytes b)
  define k where "k = enc_varint (word_of_nat (length b))"
  have d: "p @ enc_payload v @ r = p @ k @ (b @ r)" using WBytes by (simp add: k_def)
  have lt: "length p + length k + length b < 2 ^ 63" using assms d by simp
  then have lb: "sint (word_of_nat (length b) :: 64 word) = int (length b)"
    by (intro sint64_small) simp
  have v: "varint_at (p @ k @ (b @ r)) (length p) 0 0 = Inr (word_of_nat (length b), length p + length k)"
    unfolding k_def by (rule varint_roundtrip_at)
  have ov: "\<not> index_overflows (length p + length k) (int (length b))"
    using lt by (simp add: index_overflows_def)
  have t: "take (length b) (drop (length p + length k) (p @ k @ b @ r)) = b" by simp
  show ?thesis
    unfolding d using WBytes v lb ov t by (simp add: read_value_def k_def)
qed


lemma skip_payload_read:
  assumes "read_value wt d i = Inr (v, j)" "wt \<in> {0, 1, 2, 5}" "length d < 2 ^ 63"
  shows "skip_payload wt d i depth = Inr (j, depth)"
  using assms
  by (auto simp: read_value_def skip_payload_def index_overflows_def split: if_splits sum.splits prod.splits)

lemma wire_type_of_cases: "wire_type_of v \<in> {0, 1, 2, 5}"
  by (cases v) simp_all

lemma wire_type_of_less: "wire_type_of v < 8"
  by (cases v) simp_all

lemma enc_varint_nonempty: "enc_varint v \<noteq> []"
  by (subst enc_varint.simps) simp

lemma enc_field_key:
  "varint_at (p @ enc_field f v @ r) (length p) 0 0 =
   Inr (word_of_nat (f * 8 + wire_type_of v), length p + length (enc_varint (word_of_nat (f * 8 + wire_type_of v))))"
  unfolding enc_field_def using varint_roundtrip_at by (metis append_assoc)

lemma skip_loop_enc_field:
  assumes "f < 2 ^ 28" "length (enc_field f v @ r) < 2 ^ 63"
  shows "skip_loop (enc_field f v @ r) 0 0 = Inr (length (enc_field f v))"
proof -
  define k where "k = enc_varint (word_of_nat (f * 8 + wire_type_of v))"
  have d: "enc_field f v @ r = k @ enc_payload v @ r" by (simp add: enc_field_def k_def)
  have key: "varint_at (enc_field f v @ r) 0 0 0 = Inr (word_of_nat (f * 8 + wire_type_of v), length k)"
    using enc_field_key [of "[]"] by (simp add: k_def)
  have wt: "key_wire_type (word_of_nat (f * 8 + wire_type_of v)) = wire_type_of v"
    using key_decode(2) [OF assms(1) wire_type_of_less] .
  have "read_value (wire_type_of v) (k @ enc_payload v @ r) (length k) =
        Inr (v, length k + length (enc_payload v))"
    using read_value_enc [of k v r] assms(2) d by simp
  moreover have "length (k @ enc_payload v @ r) < 2 ^ 63" using assms(2) d by simp
  ultimately have "skip_payload (wire_type_of v) (k @ enc_payload v @ r) (length k) 0 =
                 Inr (length k + length (enc_payload v), 0)"
    using skip_payload_read wire_type_of_cases by blast
  then have sp: "skip_payload (wire_type_of v) (enc_field f v @ r) (length k) 0 =
                 Inr (length k + length (enc_payload v), 0)"
    unfolding d .
  have ne: "0 < length (enc_field f v @ r)" by (simp add: enc_field_def enc_varint_nonempty)
  show ?thesis
    using ne key wt sp
    by (subst skip_loop.simps) (simp add: d enc_field_def k_def)
qed


subsection \<open>The field loop reads what was written\<close>

lemma enc_fields_Cons [simp]: "enc_fields ((f, v) # fs) = enc_field f v @ enc_fields fs"
  by (simp add: enc_fields_def)

lemma enc_fields_Nil [simp]: "enc_fields [] = []"
  by (simp add: enc_fields_def)

lemma enc_fields_append [simp]: "enc_fields (fs @ gs) = enc_fields fs @ enc_fields gs"
  by (simp add: enc_fields_def)

lemma enc_field_nonempty [simp]: "enc_field f v \<noteq> []"
  by (simp add: enc_field_def enc_varint_nonempty)

lemma unmarshal_loop_end: "unmarshal_loop msg sch d (length d) m = Inr m"
  by (subst unmarshal_loop.simps) simp

text \<open>One known field: its value is read and assigned, and the loop goes on after it.\<close>

lemma unmarshal_loop_known_key:
  assumes "f * 8 + wire_type_of v < 2 ^ 64" "0 < sint (word_of_nat f :: 32 word)"
    and "sch (sint (word_of_nat f :: 32 word)) = Some fd" "fd_wire fd = wire_type_of v"
    and "length (p @ enc_field f v @ r) < 2 ^ 63"
  shows "unmarshal_loop msg sch (p @ enc_field f v @ r) (length p) m =
         (case fd_set fd v m of
            Inl e \<Rightarrow> Inl e
          | Inr m' \<Rightarrow> unmarshal_loop msg sch (p @ enc_field f v @ r) (length (p @ enc_field f v)) m')"
proof -
  define k where "k = enc_varint (word_of_nat (f * 8 + wire_type_of v))"
  have d: "p @ enc_field f v @ r = (p @ k) @ enc_payload v @ r" by (simp add: enc_field_def k_def)
  have key: "varint_at (p @ enc_field f v @ r) (length p) 0 0 =
             Inr (word_of_nat (f * 8 + wire_type_of v), length p + length k)"
    using enc_field_key by (simp add: k_def)
  have kf: "key_field (word_of_nat (f * 8 + wire_type_of v)) = sint (word_of_nat f :: 32 word)"
    and kw: "key_wire_type (word_of_nat (f * 8 + wire_type_of v)) = wire_type_of v"
    using key_field_nat [OF assms(1) wire_type_of_less] key_wire_type_nat [OF assms(1) wire_type_of_less]
    by simp_all
  have rv: "read_value (wire_type_of v) (p @ enc_field f v @ r) (length p + length k) =
            Inr (v, length (p @ enc_field f v))"
    using read_value_enc [of "p @ k" v r] assms(5) d by (simp add: enc_field_def k_def)
  have ne: "length p < length (p @ enc_field f v @ r)" by (simp add: enc_field_def enc_varint_nonempty)
  have w4: "wire_type_of v \<noteq> 4" using wire_type_of_cases [of v] by auto
  have s0: "\<not> sint (word_of_nat f :: 32 word) \<le> 0" using assms(2) by simp
  show ?thesis
    using ne key kf kw rv w4 s0 assms(3,4)
    by (subst unmarshal_loop.simps) (simp split: sum.split)
qed

lemma unmarshal_loop_known:
  assumes "0 < f" "f < 2 ^ 28" "sch (int f) = Some fd" "fd_wire fd = wire_type_of v"
    and "length (p @ enc_field f v @ r) < 2 ^ 63"
  shows "unmarshal_loop msg sch (p @ enc_field f v @ r) (length p) m =
         (case fd_set fd v m of
            Inl e \<Rightarrow> Inl e
          | Inr m' \<Rightarrow> unmarshal_loop msg sch (p @ enc_field f v @ r) (length (p @ enc_field f v)) m')"
proof (rule unmarshal_loop_known_key)
  have s: "sint (word_of_nat f :: 32 word) = int f" using assms(2) by (intro sint32_small) simp
  show "f * 8 + wire_type_of v < 2 ^ 64" using assms(2) wire_type_of_less [of v] by simp
  show "0 < sint (word_of_nat f :: 32 word)" using s assms(1) by simp
  show "sch (sint (word_of_nat f :: 32 word)) = Some fd" using s assms(3) by simp
qed (use assms in simp_all)

text \<open>One unknown field: \<open>skipTypes\<close> passes over exactly its bytes.\<close>

lemma unmarshal_loop_unknown:
  assumes "0 < f" "f < 2 ^ 28" "sch (int f) = None"
    and "length (p @ enc_field f v @ r) < 2 ^ 63"
  shows "unmarshal_loop msg sch (p @ enc_field f v @ r) (length p) m =
         unmarshal_loop msg sch (p @ enc_field f v @ r) (length (p @ enc_field f v)) m"
proof -
  have key: "varint_at (p @ enc_field f v @ r) (length p) 0 0 =
             Inr (word_of_nat (f * 8 + wire_type_of v), length p + length (enc_varint (word_of_nat (f * 8 + wire_type_of v))))"
    using enc_field_key .
  have kf: "key_field (word_of_nat (f * 8 + wire_type_of v)) = int f"
    and kw: "key_wire_type (word_of_nat (f * 8 + wire_type_of v)) = wire_type_of v"
    using key_decode [OF assms(2) wire_type_of_less] by simp_all
  have sk: "skip_loop (drop (length p) (p @ enc_field f v @ r)) 0 0 = Inr (length (enc_field f v))"
    using skip_loop_enc_field [OF assms(2)] assms(4) by simp
  have ov: "\<not> index_overflows (length p) (int (length (enc_field f v)))"
    using assms(4) by (simp add: index_overflows_def)
  have ne: "length p < length (p @ enc_field f v @ r)" by (simp add: enc_field_def enc_varint_nonempty)
  have w4: "wire_type_of v \<noteq> 4" using wire_type_of_cases [of v] by auto
  show ?thesis
    using ne key kf kw sk ov w4 assms(1,3)
    by (subst unmarshal_loop.simps) simp
qed

text \<open>
  Refinement: on the encoding of well-formed fields, the byte-level loop
  computes the field-wise reading \<open>apply_fields\<close>.
\<close>

lemma unmarshal_loop_enc_fields:
  "wf_fields sch fs \<Longrightarrow> length (p @ enc_fields fs) < 2 ^ 63 \<Longrightarrow>
   unmarshal_loop msg sch (p @ enc_fields fs) (length p) m = apply_fields sch fs m"
proof (induction fs arbitrary: p m)
  case Nil
  then show ?case using unmarshal_loop_end [of msg sch p m] by simp
next
  case (Cons fv fs)
  obtain f v where fv: "fv = (f, v)" by fastforce
  have f: "0 < f" "f < 2 ^ 28" and wf: "wf_fields sch fs"
    using Cons(2) fv by (simp_all add: wf_fields_def)
  have len: "length (p @ enc_field f v @ enc_fields fs) < 2 ^ 63" using Cons(3) fv by simp
  have IH: "\<And>m. unmarshal_loop msg sch ((p @ enc_field f v) @ enc_fields fs) (length (p @ enc_field f v)) m =
                 apply_fields sch fs m"
    using Cons(1) [OF wf, of "p @ enc_field f v"] len by simp
  show ?case
  proof (cases "sch (int f)")
    case None
    then show ?thesis
      using unmarshal_loop_unknown [where p = p and r = "enc_fields fs" and sch = sch and f = f and v = v, OF f None len] IH fv by simp
  next
    case (Some fd)
    then have "fd_wire fd = wire_type_of v" using Cons(2) fv by (simp add: wf_fields_def)
    then show ?thesis
      using unmarshal_loop_known [where p = p and r = "enc_fields fs" and sch = sch and f = f and v = v, OF f Some _ len] IH fv Some
      by (simp split: sum.split)
  qed
qed


subsection \<open>Field-list lemmas\<close>

lemma apply_fields_append:
  "apply_fields sch (fs @ gs) m = (case apply_fields sch fs m of Inl e \<Rightarrow> Inl e | Inr m' \<Rightarrow> apply_fields sch gs m')"
  by (induction sch fs m rule: apply_fields.induct) (simp_all split: option.split sum.split)

lemma apply_fields_repeated:
  assumes "sch (int f) = Some fd" "\<And>x m. x \<in> set xs \<Longrightarrow> fd_set fd (g x) m = Inr (upd x m)"
  shows "apply_fields sch (map (\<lambda>x. (f, g x)) xs) m = Inr (fold upd xs m)"
  using assms(2) by (induction xs arbitrary: m) (simp_all add: assms(1))

lemma wf_fields_append [simp]: "wf_fields sch (fs @ gs) \<longleftrightarrow> wf_fields sch fs \<and> wf_fields sch gs"
  by (simp add: wf_fields_def)

lemma enc_payload_bytes_length: "length b < length (enc_payload (WBytes b))"
  by (simp add: enc_varint_nonempty)

lemma enc_fields_member_length:
  "(f, WBytes b) \<in> set fs \<Longrightarrow> length b < length (enc_fields fs)"
proof (induction fs)
  case Nil
  then show ?case by simp
next
  case (Cons fv fs)
  have "length b < length (enc_field f (WBytes b))"
    using enc_payload_bytes_length [of b] by (simp add: enc_field_def)
  then show ?case using Cons by (cases fv) auto
qed


lemma unmarshal_enc_fields:
  "wf_fields sch fs \<Longrightarrow> length (enc_fields fs) < 2 ^ 63 \<Longrightarrow>
   unmarshal_loop msg sch (enc_fields fs) 0 m = apply_fields sch fs m"
  using unmarshal_loop_enc_fields [of sch fs "[]"] by simp

lemma member_bound:
  assumes "x \<in> set xs" "(f, WBytes (enc x)) \<in> set (map (\<lambda>x. (f, WBytes (enc x))) xs) \<Longrightarrow>
             (f, WBytes (enc x)) \<in> set fs" "length (enc_fields fs) < 2 ^ 63"
  shows "length (enc x) < 2 ^ 63"
  using assms enc_fields_member_length [of f "enc x" fs] by fastforce

lemma apply_fields_unknown:
  "list_all (\<lambda>(f, v). sch (int f) = None) us \<Longrightarrow> apply_fields sch us m = Inr m"
  by (induction us) auto



text \<open>
  Ten bytes with the continuation bit set are rejected with
  \<open>proto: integer overflow\<close> whatever follows, nine of them at the end of
  the input with \<open>unexpected EOF\<close>.
\<close>

lemma varint_overlong_rejected:
  assumes "length bs = 10" "list_all (\<lambda>b. 128 \<le> (of_char b :: nat)) bs"
  shows "varint_at (p @ bs @ r) (length p) 0 acc = Inl err_int_overflow \<and>
         varint_at (p @ butlast bs) (length p) 0 acc = Inl err_unexpected_eof"
proof
  show "varint_at (p @ bs @ r) (length p) 0 acc = Inl err_int_overflow"
    using varint_at_overlong [OF assms] .
  have "list_all (\<lambda>b. 128 \<le> (of_char b :: nat)) (butlast bs)"
    using assms(2) by (simp add: list_all_iff in_set_butlastD)
  then show "varint_at (p @ butlast bs) (length p) 0 acc = Inl err_unexpected_eof"
    using varint_at_truncated assms(1) by simp
qed

end
