(* ===== verification/Prompb.thy ===== *)
theory Prompb
  imports Wire Handler
begin

unbundle bit_operations_syntax

text \<open>
  The prompb messages of the remote-read protocol on the wire, as the code
  generated by gogo/protobuf for prompb's \<open>types.proto\<close> and
  \<open>remote.proto\<close> reads and writes them: the \<open>Unmarshal\<close> of
  \<open>ReadRequest\<close>, \<open>Query\<close> and \<open>LabelMatcher\<close> that \<open>proto.Unmarshal\<close>
  runs on the decompressed request (src/main.go, line 170), and the
  \<open>MarshalTo\<close> of \<open>ReadResponse\<close>, \<open>QueryResult\<close>, \<open>TimeSeries\<close>,
  \<open>Label\<close> and \<open>Sample\<close> that \<open>proto.Marshal\<close> runs on the response
  (line 191). Each \<open>Unmarshal\<close> is the field loop of Wire with the
  message's table of fields; each \<open>MarshalTo\<close> writes the fields whose
  value is not the proto3 default, in field-number order. The other side of
  the protocol (Prometheus encoding the request and decoding the response)
  is the same generated code for the other messages; it is defined here as
  the reference the round trips are stated against.
\<close>

subsection \<open>Decoding the request\<close>

text \<open>\<open>m.Type |= LabelMatcher_Type(b&0x7F) << shift\<close> on an \<open>int32\<close> keeps the low 32 bits.\<close>

definition LabelMatcher_fields :: "int \<Rightarrow> LabelMatcher field_decl option" where
  "LabelMatcher_fields n =
     (if n = 1 then Some \<lparr>fd_name = ''Type'', fd_wire = 0,
          fd_set = \<lambda>v m. Inr (case v of WVarint w \<Rightarrow> m\<lparr>lm_type := ucast w\<rparr> | _ \<Rightarrow> m)\<rparr>
      else if n = 2 then Some \<lparr>fd_name = ''Name'', fd_wire = 2,
          fd_set = \<lambda>v m. Inr (case v of WBytes b \<Rightarrow> m\<lparr>lm_name := b\<rparr> | _ \<Rightarrow> m)\<rparr>
      else if n = 3 then Some \<lparr>fd_name = ''Value'', fd_wire = 2,
          fd_set = \<lambda>v m. Inr (case v of WBytes b \<Rightarrow> m\<lparr>lm_value := b\<rparr> | _ \<Rightarrow> m)\<rparr>
      else None)"

definition unmarshal_LabelMatcher :: "bytes \<Rightarrow> go_error + LabelMatcher" where
  "unmarshal_LabelMatcher d = unmarshal_loop ''LabelMatcher'' LabelMatcher_fields d 0 \<lparr>lm_type = 0, lm_name = [], lm_value = []\<rparr>"

text \<open>
  \<open>m.Matchers = append(m.Matchers, &LabelMatcher{})\<close>, then the new
  element's \<open>Unmarshal(dAtA[iNdEx:postIndex])\<close>, whose error is returned.
\<close>

definition Query_fields :: "int \<Rightarrow> Query field_decl option" where
  "Query_fields n =
     (if n = 1 then Some \<lparr>fd_name = ''StartTimestampMs'', fd_wire = 0,
          fd_set = \<lambda>v m. Inr (case v of WVarint w \<Rightarrow> m\<lparr>StartTimestampMs := w\<rparr> | _ \<Rightarrow> m)\<rparr>
      else if n = 2 then Some \<lparr>fd_name = ''EndTimestampMs'', fd_wire = 0,
          fd_set = \<lambda>v m. Inr (case v of WVarint w \<Rightarrow> m\<lparr>EndTimestampMs := w\<rparr> | _ \<Rightarrow> m)\<rparr>
      else if n = 3 then Some \<lparr>fd_name = ''Matchers'', fd_wire = 2,
          fd_set = \<lambda>v m. (case v of
              WBytes b \<Rightarrow> (case unmarshal_LabelMatcher b of
                             Inl e \<Rightarrow> Inl e
                           | Inr lm \<Rightarrow> Inr (m\<lparr>Matchers := Matchers m @ [lm]\<rparr>))
            | _ \<Rightarrow> Inr m)\<rparr>
      else None)"

definition unmarshal_Query :: "bytes \<Rightarrow> go_error + Query" where
  "unmarshal_Query d =
     unmarshal_loop ''Query'' Query_fields d 0 \<lparr>StartTimestampMs = 0, EndTimestampMs = 0, Matchers = []\<rparr>"

definition ReadRequest_fields :: "int \<Rightarrow> ReadRequest field_decl option" where
  "ReadRequest_fields n =
     (if n = 1 then Some \<lparr>fd_name = ''Queries'', fd_wire = 2,
          fd_set = \<lambda>v m. (case v of
              WBytes b \<Rightarrow> (case unmarshal_Query b of
                             Inl e \<Rightarrow> Inl e
                           | Inr q \<Rightarrow> Inr (m\<lparr>Queries := Queries m @ [q]\<rparr>))
            | _ \<Rightarrow> Inr m)\<rparr>
      else None)"

text \<open>\<open>proto.Unmarshal(buf, &req)\<close>: \<open>Reset\<close>, then the generated \<open>Unmarshal\<close>.\<close>

definition unmarshal_ReadRequest :: "bytes \<Rightarrow> go_error + ReadRequest" where
  "unmarshal_ReadRequest d = unmarshal_loop ''ReadRequest'' ReadRequest_fields d 0 \<lparr>Queries = []\<rparr>"

subsection \<open>Encoding the response\<close>

text \<open>\<open>if m.Value != 0\<close> on a \<open>float64\<close>: false for both zeros, true for NaN.\<close>

definition f64_is_zero :: "float64 \<Rightarrow> bool" where
  "f64_is_zero w \<longleftrightarrow> f64_exp w = 0 \<and> f64_frac w = 0"

definition marshal_Label :: "Label \<Rightarrow> bytes" where
  "marshal_Label l =
     enc_fields ((if label_name l = [] then [] else [(1, WBytes (label_name l))]) @
                 (if label_value l = [] then [] else [(2, WBytes (label_value l))]))"

definition marshal_Sample :: "Sample \<Rightarrow> bytes" where
  "marshal_Sample s =
     enc_fields ((if f64_is_zero (sample_value s) then [] else [(1, WFixed64 (sample_value s))]) @
                 (if sample_timestamp s = 0 then [] else [(2, WVarint (sample_timestamp s))]))"

definition marshal_TimeSeries :: "TimeSeries \<Rightarrow> bytes" where
  "marshal_TimeSeries t =
     enc_fields (map (\<lambda>l. (1, WBytes (marshal_Label l))) (ts_labels t) @
                 map (\<lambda>s. (2, WBytes (marshal_Sample s))) (ts_samples t))"

definition marshal_QueryResult :: "QueryResult \<Rightarrow> bytes" where
  "marshal_QueryResult r = enc_fields (map (\<lambda>t. (1, WBytes (marshal_TimeSeries t))) (Timeseries r))"

definition marshal_ReadResponse :: "ReadResponse \<Rightarrow> bytes" where
  "marshal_ReadResponse r = enc_fields (map (\<lambda>q. (1, WBytes (marshal_QueryResult q))) (Results r))"

text \<open>\<open>proto.Marshal(&resp)\<close> of a generated message never fails.\<close>

definition proto_marshal_gogo :: "ReadResponse \<Rightarrow> go_error + bytes" where
  "proto_marshal_gogo r = Inr (marshal_ReadResponse r)"


subsection \<open>The other side: Prometheus's encoder and decoder\<close>

text \<open>
  \<open>MarshalTo\<close> of the request messages. An \<open>int32\<close> enum is written as
  \<open>uint64(m.Type)\<close>, sign-extended, so a negative type takes ten bytes.
\<close>

definition marshal_LabelMatcher :: "LabelMatcher \<Rightarrow> bytes" where
  "marshal_LabelMatcher m =
     enc_fields ((if lm_type m = 0 then [] else [(1, WVarint (scast (lm_type m)))]) @
                 (if lm_name m = [] then [] else [(2, WBytes (lm_name m))]) @
                 (if lm_value m = [] then [] else [(3, WBytes (lm_value m))]))"

definition Query_wire :: "Query \<Rightarrow> (nat \<times> wire_val) list" where
  "Query_wire q =
     (if StartTimestampMs q = 0 then [] else [(1, WVarint (StartTimestampMs q))]) @
     (if EndTimestampMs q = 0 then [] else [(2, WVarint (EndTimestampMs q))]) @
     map (\<lambda>m. (3, WBytes (marshal_LabelMatcher m))) (Matchers q)"

definition marshal_Query :: "Query \<Rightarrow> bytes" where
  "marshal_Query q = enc_fields (Query_wire q)"

definition marshal_ReadRequest :: "ReadRequest \<Rightarrow> bytes" where
  "marshal_ReadRequest r = enc_fields (map (\<lambda>q. (1, WBytes (marshal_Query q))) (Queries r))"

text \<open>\<open>Unmarshal\<close> of the response messages.\<close>

definition Label_fields :: "int \<Rightarrow> Label field_decl option" where
  "Label_fields n =
     (if n = 1 then Some \<lparr>fd_name = ''Name'', fd_wire = 2,
          fd_set = \<lambda>v m. Inr (case v of WBytes b \<Rightarrow> m\<lparr>label_name := b\<rparr> | _ \<Rightarrow> m)\<rparr>
      else if n = 2 then Some \<lparr>fd_name = ''Value'', fd_wire = 2,
          fd_set = \<lambda>v m. Inr (case v of WBytes b \<Rightarrow> m\<lparr>label_value := b\<rparr> | _ \<Rightarrow> m)\<rparr>
      else None)"

definition unmarshal_Label :: "bytes \<Rightarrow> go_error + Label" where
  "unmarshal_Label d = unmarshal_loop ''Label'' Label_fields d 0 \<lparr>label_name = [], label_value = []\<rparr>"

definition Sample_fields :: "int \<Rightarrow> Sample field_decl option" where
  "Sample_fields n =
     (if n = 1 then Some \<lparr>fd_name = ''Value'', fd_wire = 1,
          fd_set = \<lambda>v m. Inr (case v of WFixed64 w \<Rightarrow> m\<lparr>sample_value := w\<rparr> | _ \<Rightarrow> m)\<rparr>
      else if n = 2 then Some \<lparr>fd_name = ''Timestamp'', fd_wire = 0,
          fd_set = \<lambda>v m. Inr (case v of WVarint w \<Rightarrow> m\<lparr>sample_timestamp := w\<rparr> | _ \<Rightarrow> m)\<rparr>
      else None)"

definition unmarshal_Sample :: "bytes \<Rightarrow> go_error + Sample" where
  "unmarshal_Sample d = unmarshal_loop ''Sample'' Sample_fields d 0 \<lparr>sample_value = 0, sample_timestamp = 0\<rparr>"

definition TimeSeries_fields :: "int \<Rightarrow> TimeSeries field_decl option" where
  "TimeSeries_fields n =
     (if n = 1 then Some \<lparr>fd_name = ''Labels'', fd_wire = 2,
          fd_set = \<lambda>v m. (case v of
              WBytes b \<Rightarrow> (case unmarshal_Label b of
                             Inl e \<Rightarrow> Inl e | Inr l \<Rightarrow> Inr (m\<lparr>ts_labels := ts_labels m @ [l]\<rparr>))
            | _ \<Rightarrow> Inr m)\<rparr>
      else if n = 2 then Some \<lparr>fd_name = ''Samples'', fd_wire = 2,
          fd_set = \<lambda>v m. (case v of
              WBytes b \<Rightarrow> (case unmarshal_Sample b of
                             Inl e \<Rightarrow> Inl e | Inr s \<Rightarrow> Inr (m\<lparr>ts_samples := ts_samples m @ [s]\<rparr>))
            | _ \<Rightarrow> Inr m)\<rparr>
      else None)"

definition unmarshal_TimeSeries :: "bytes \<Rightarrow> go_error + TimeSeries" where
  "unmarshal_TimeSeries d = unmarshal_loop ''TimeSeries'' TimeSeries_fields d 0 \<lparr>ts_labels = [], ts_samples = []\<rparr>"

definition QueryResult_fields :: "int \<Rightarrow> QueryResult field_decl option" where
  "QueryResult_fields n =
     (if n = 1 then Some \<lparr>fd_name = ''Timeseries'', fd_wire = 2,
          fd_set = \<lambda>v m. (case v of
              WBytes b \<Rightarrow> (case unmarshal_TimeSeries b of
                             Inl e \<Rightarrow> Inl e | Inr t \<Rightarrow> Inr (m\<lparr>Timeseries := Timeseries m @ [t]\<rparr>))
            | _ \<Rightarrow> Inr m)\<rparr>
      else None)"

definition unmarshal_QueryResult :: "bytes \<Rightarrow> go_error + QueryResult" where
  "unmarshal_QueryResult d = unmarshal_loop ''QueryResult'' QueryResult_fields d 0 \<lparr>Timeseries = []\<rparr>"

definition ReadResponse_fields :: "int \<Rightarrow> ReadResponse field_decl option" where
  "ReadResponse_fields n =
     (if n = 1 then Some \<lparr>fd_name = ''Results'', fd_wire = 2,
          fd_set = \<lambda>v m. (case v of
              WBytes b \<Rightarrow> (case unmarshal_QueryResult b of
                             Inl e \<Rightarrow> Inl e | Inr q \<Rightarrow> Inr (m\<lparr>Results := Results m @ [q]\<rparr>))
            | _ \<Rightarrow> Inr m)\<rparr>
      else None)"

definition unmarshal_ReadResponse :: "bytes \<Rightarrow> go_error + ReadResponse" where
  "unmarshal_ReadResponse d = unmarshal_loop ''ReadResponse'' ReadResponse_fields d 0 \<lparr>Results = []\<rparr>"

subsection \<open>Field-list lemmas\<close>

lemma ucast_scast_32_64: "(ucast (scast (t :: 32 word) :: 64 word) :: 32 word) = t"
  by (rule bit_word_eqI) (auto simp: bit_simps)

lemma LabelMatcher_roundtrip:
  "length (marshal_LabelMatcher m) < 2 ^ 63 \<Longrightarrow> unmarshal_LabelMatcher (marshal_LabelMatcher m) = Inr m"
  unfolding unmarshal_LabelMatcher_def marshal_LabelMatcher_def
  by (subst unmarshal_enc_fields)
     (auto simp: wf_fields_def LabelMatcher_fields_def apply_fields_append ucast_scast_32_64)


lemma fold_append_Matchers:
  "fold (\<lambda>x m. m\<lparr>Matchers := Matchers m @ [x]\<rparr>) xs m = m\<lparr>Matchers := Matchers m @ xs\<rparr>"
  by (induction xs arbitrary: m) simp_all

lemma Query_apply:
  assumes "length (enc_fields (Query_wire q)) < 2 ^ 63"
  shows "apply_fields Query_fields (Query_wire q) \<lparr>StartTimestampMs = 0, EndTimestampMs = 0, Matchers = []\<rparr> = Inr q"
proof -
  have lm: "unmarshal_LabelMatcher (marshal_LabelMatcher m) = Inr m" if "m \<in> set (Matchers q)" for m
  proof (rule LabelMatcher_roundtrip)
    have "(3, WBytes (marshal_LabelMatcher m)) \<in> set (Query_wire q)" using that by (simp add: Query_wire_def)
    then show "length (marshal_LabelMatcher m) < 2 ^ 63"
      using enc_fields_member_length assms by fastforce
  qed
  have rep: "apply_fields Query_fields (map (\<lambda>m. (3::nat, WBytes (marshal_LabelMatcher m))) (Matchers q)) q0 =
             Inr (q0\<lparr>Matchers := Matchers q0 @ Matchers q\<rparr>)" for q0
    using apply_fields_repeated [of Query_fields 3 _ "Matchers q" "\<lambda>m. WBytes (marshal_LabelMatcher m)"
        "\<lambda>x m. m\<lparr>Matchers := Matchers m @ [x]\<rparr>"] lm
    by (simp add: Query_fields_def fold_append_Matchers)
  show ?thesis
    by (simp add: Query_wire_def apply_fields_append rep Query_fields_def)
qed

lemma Query_wire_wf: "wf_fields Query_fields (Query_wire q)"
  by (simp add: Query_wire_def wf_fields_def Query_fields_def list_all_iff)

lemma Query_roundtrip:
  "length (marshal_Query q) < 2 ^ 63 \<Longrightarrow> unmarshal_Query (marshal_Query q) = Inr q"
  unfolding unmarshal_Query_def marshal_Query_def
  by (simp add: unmarshal_enc_fields Query_wire_wf Query_apply)

lemma fold_append_Queries:
  "fold (\<lambda>x m. m\<lparr>Queries := Queries m @ [x]\<rparr>) xs m = m\<lparr>Queries := Queries m @ xs\<rparr>"
  by (induction xs arbitrary: m) simp_all

lemma ReadRequest_roundtrip:
  assumes "length (marshal_ReadRequest r) < 2 ^ 63"
  shows "unmarshal_ReadRequest (marshal_ReadRequest r) = Inr r"
proof -
  define fs where "fs = map (\<lambda>q. (1::nat, WBytes (marshal_Query q))) (Queries r)"
  have mr: "marshal_ReadRequest r = enc_fields fs" by (simp add: marshal_ReadRequest_def fs_def)
  have qs: "unmarshal_Query (marshal_Query q) = Inr q" if "q \<in> set (Queries r)" for q
  proof (rule Query_roundtrip)
    have "(1, WBytes (marshal_Query q)) \<in> set fs" using that by (simp add: fs_def)
    then show "length (marshal_Query q) < 2 ^ 63"
      using enc_fields_member_length assms mr by fastforce
  qed
  have wf: "wf_fields ReadRequest_fields fs" by (simp add: fs_def wf_fields_def ReadRequest_fields_def list_all_iff)
  have "apply_fields ReadRequest_fields fs \<lparr>Queries = []\<rparr> = Inr \<lparr>Queries = [] @ Queries r\<rparr>"
    using apply_fields_repeated [of ReadRequest_fields 1 _ "Queries r" "\<lambda>q. WBytes (marshal_Query q)"
        "\<lambda>x m. m\<lparr>Queries := Queries m @ [x]\<rparr>"] qs
    by (simp add: fs_def ReadRequest_fields_def fold_append_Queries)
  then show ?thesis
    unfolding unmarshal_ReadRequest_def mr unmarshal_enc_fields [OF wf assms [unfolded mr]] by simp
qed

subsection \<open>Response round trips\<close>

lemma Label_roundtrip:
  "length (marshal_Label l) < 2 ^ 63 \<Longrightarrow> unmarshal_Label (marshal_Label l) = Inr l"
  unfolding unmarshal_Label_def marshal_Label_def
  by (subst unmarshal_enc_fields) (auto simp: wf_fields_def Label_fields_def apply_fields_append)

text \<open>
  The value field is omitted for both zeros, so a decoder reads \<open>-0.0\<close>
  (the bit pattern \<open>0x8000000000000000\<close>) as \<open>+0.0\<close>: the response
  Prometheus reads is the written one with every negative zero made positive.
\<close>

definition norm_sample :: "Sample \<Rightarrow> Sample" where
  "norm_sample s = (if sample_value s = 0x8000000000000000 then s\<lparr>sample_value := 0\<rparr> else s)"

definition norm_response :: "ReadResponse \<Rightarrow> ReadResponse" where
  "norm_response r =
     \<lparr>Results = map (\<lambda>q. \<lparr>Timeseries = map (\<lambda>t. t\<lparr>ts_samples := map norm_sample (ts_samples t)\<rparr>)
                                       (Timeseries q)\<rparr>) (Results r)\<rparr>"

definition no_neg_zero :: "float64 \<Rightarrow> bool" where
  "no_neg_zero w \<longleftrightarrow> (f64_is_zero w \<longrightarrow> w = 0)"

lemma f64_is_zero_iff: "f64_is_zero w \<longleftrightarrow> w = 0 \<or> w = 0x8000000000000000"
proof -
  define n where "n = unat w"
  have u: "n < 2 ^ 64" using unsigned_less [of w] by (simp add: n_def)
  have e: "(2::nat) ^ 52 * 2 ^ 11 = 2 ^ 63" by simp
  have "n mod 2 ^ 63 = 2 ^ 52 * (n div 2 ^ 52 mod 2 ^ 11) + n mod 2 ^ 52"
    using mod_mult2_eq [of n "2 ^ 52" "2 ^ 11"] unfolding e .
  then have "f64_is_zero w \<longleftrightarrow> n mod 2 ^ 63 = 0"
    by (simp add: f64_is_zero_def f64_exp_def f64_frac_def n_def)
  also have "\<dots> \<longleftrightarrow> n = 0 \<or> n = 2 ^ 63"
  proof
    assume "n mod 2 ^ 63 = 0"
    then obtain k where k: "n = 2 ^ 63 * k" by (auto simp: mod_eq_0_iff_dvd)
    then have "k < 2" using u by simp
    then show "n = 0 \<or> n = 2 ^ 63" using k by (cases k) auto
  qed auto
  also have "\<dots> \<longleftrightarrow> w = 0 \<or> w = 0x8000000000000000"
    by (auto simp: n_def word_unat_eq_iff)
  finally show ?thesis .
qed

lemma Sample_roundtrip_norm:
  "length (marshal_Sample s) < 2 ^ 63 \<Longrightarrow> unmarshal_Sample (marshal_Sample s) = Inr (norm_sample s)"
  unfolding unmarshal_Sample_def marshal_Sample_def norm_sample_def f64_is_zero_iff
  by (subst unmarshal_enc_fields) (auto simp: wf_fields_def Sample_fields_def apply_fields_append)

lemma Sample_roundtrip:
  "no_neg_zero (sample_value s) \<Longrightarrow> length (marshal_Sample s) < 2 ^ 63 \<Longrightarrow>
   unmarshal_Sample (marshal_Sample s) = Inr s"
  unfolding unmarshal_Sample_def marshal_Sample_def no_neg_zero_def
  by (subst unmarshal_enc_fields) (auto simp: wf_fields_def Sample_fields_def apply_fields_append)

lemma fold_append_labels:
  "fold (\<lambda>x m. m\<lparr>ts_labels := ts_labels m @ [x]\<rparr>) xs m = m\<lparr>ts_labels := ts_labels m @ xs\<rparr>"
  by (induction xs arbitrary: m) simp_all

lemma fold_append_samples:
  "fold (\<lambda>x m. m\<lparr>ts_samples := ts_samples m @ [h x]\<rparr>) xs m = m\<lparr>ts_samples := ts_samples m @ map h xs\<rparr>"
  by (induction xs arbitrary: m) simp_all

lemma fold_append_Timeseries:
  "fold (\<lambda>x m. m\<lparr>Timeseries := Timeseries m @ [h x]\<rparr>) xs m = m\<lparr>Timeseries := Timeseries m @ map h xs\<rparr>"
  by (induction xs arbitrary: m) simp_all

lemma fold_append_Results:
  "fold (\<lambda>x m. m\<lparr>Results := Results m @ [h x]\<rparr>) xs m = m\<lparr>Results := Results m @ map h xs\<rparr>"
  by (induction xs arbitrary: m) simp_all

text \<open>
  The response decoders read a response back as written, up to what a
  sample's value becomes (\<open>h\<close>): the nested messages are read through the
  sample lemma given as hypothesis.
\<close>

lemma TimeSeries_decode:
  assumes "\<And>s. s \<in> set (ts_samples t) \<Longrightarrow> length (marshal_Sample s) < 2 ^ 63 \<Longrightarrow>
             unmarshal_Sample (marshal_Sample s) = Inr (h s)"
    and "length (marshal_TimeSeries t) < 2 ^ 63"
  shows "unmarshal_TimeSeries (marshal_TimeSeries t) = Inr (t\<lparr>ts_samples := map h (ts_samples t)\<rparr>)"
proof -
  define ls where "ls = map (\<lambda>l. (1::nat, WBytes (marshal_Label l))) (ts_labels t)"
  define ss where "ss = map (\<lambda>s. (2::nat, WBytes (marshal_Sample s))) (ts_samples t)"
  have mt: "marshal_TimeSeries t = enc_fields (ls @ ss)" by (simp add: marshal_TimeSeries_def ls_def ss_def)
  have lr: "unmarshal_Label (marshal_Label l) = Inr l" if "l \<in> set (ts_labels t)" for l
    using Label_roundtrip member_bound [of l "ts_labels t" 1 marshal_Label "ls @ ss"] that assms(2)
    unfolding mt ls_def by simp
  have sr: "unmarshal_Sample (marshal_Sample s) = Inr (h s)" if "s \<in> set (ts_samples t)" for s
    using assms(1) member_bound [of s "ts_samples t" 2 marshal_Sample "ls @ ss"] that assms(2)
    unfolding mt ss_def by simp
  have al: "apply_fields TimeSeries_fields ls m = Inr (m\<lparr>ts_labels := ts_labels m @ ts_labels t\<rparr>)" for m
    using apply_fields_repeated [of TimeSeries_fields 1 _ "ts_labels t" "\<lambda>l. WBytes (marshal_Label l)"
        "\<lambda>x m. m\<lparr>ts_labels := ts_labels m @ [x]\<rparr>"] lr
    by (simp add: ls_def TimeSeries_fields_def fold_append_labels)
  have as: "apply_fields TimeSeries_fields ss m = Inr (m\<lparr>ts_samples := ts_samples m @ map h (ts_samples t)\<rparr>)" for m
    using apply_fields_repeated [of TimeSeries_fields 2 _ "ts_samples t" "\<lambda>s. WBytes (marshal_Sample s)"
        "\<lambda>x m. m\<lparr>ts_samples := ts_samples m @ [h x]\<rparr>"] sr
    by (simp add: ss_def TimeSeries_fields_def fold_append_samples)
  have wf: "wf_fields TimeSeries_fields (ls @ ss)"
    unfolding wf_fields_append by (simp add: ls_def ss_def wf_fields_def TimeSeries_fields_def list_all_iff)
  show ?thesis
    unfolding unmarshal_TimeSeries_def mt unmarshal_enc_fields [OF wf assms(2) [unfolded mt]]
    by (simp add: apply_fields_append al as)
qed

lemma QueryResult_decode:
  assumes "\<And>t s. t \<in> set (Timeseries r) \<Longrightarrow> s \<in> set (ts_samples t) \<Longrightarrow>
             length (marshal_Sample s) < 2 ^ 63 \<Longrightarrow> unmarshal_Sample (marshal_Sample s) = Inr (h s)"
    and "length (marshal_QueryResult r) < 2 ^ 63"
  shows "unmarshal_QueryResult (marshal_QueryResult r) =
         Inr \<lparr>Timeseries = map (\<lambda>t. t\<lparr>ts_samples := map h (ts_samples t)\<rparr>) (Timeseries r)\<rparr>"
proof -
  define fs where "fs = map (\<lambda>t. (1::nat, WBytes (marshal_TimeSeries t))) (Timeseries r)"
  have mr: "marshal_QueryResult r = enc_fields fs" by (simp add: marshal_QueryResult_def fs_def)
  have tr: "unmarshal_TimeSeries (marshal_TimeSeries t) = Inr (t\<lparr>ts_samples := map h (ts_samples t)\<rparr>)"
    if "t \<in> set (Timeseries r)" for t
    using TimeSeries_decode [OF assms(1) [OF that]] member_bound [of t "Timeseries r" 1 marshal_TimeSeries fs]
      that assms(2)
    unfolding mr fs_def by simp
  have wf: "wf_fields QueryResult_fields fs" by (simp add: fs_def wf_fields_def QueryResult_fields_def list_all_iff)
  have "apply_fields QueryResult_fields fs \<lparr>Timeseries = []\<rparr> =
        Inr \<lparr>Timeseries = [] @ map (\<lambda>t. t\<lparr>ts_samples := map h (ts_samples t)\<rparr>) (Timeseries r)\<rparr>"
    using apply_fields_repeated [of QueryResult_fields 1 _ "Timeseries r" "\<lambda>t. WBytes (marshal_TimeSeries t)"
        "\<lambda>x m. m\<lparr>Timeseries := Timeseries m @ [x\<lparr>ts_samples := map h (ts_samples x)\<rparr>]\<rparr>"] tr
    by (simp add: fs_def QueryResult_fields_def fold_append_Timeseries)
  then show ?thesis
    unfolding unmarshal_QueryResult_def mr unmarshal_enc_fields [OF wf assms(2) [unfolded mr]] by simp
qed

lemma ReadResponse_decode:
  assumes "\<And>q t s. q \<in> set (Results r) \<Longrightarrow> t \<in> set (Timeseries q) \<Longrightarrow> s \<in> set (ts_samples t) \<Longrightarrow>
             length (marshal_Sample s) < 2 ^ 63 \<Longrightarrow> unmarshal_Sample (marshal_Sample s) = Inr (h s)"
    and "length (marshal_ReadResponse r) < 2 ^ 63"
  shows "unmarshal_ReadResponse (marshal_ReadResponse r) =
         Inr \<lparr>Results = map (\<lambda>q. \<lparr>Timeseries = map (\<lambda>t. t\<lparr>ts_samples := map h (ts_samples t)\<rparr>)
                                                (Timeseries q)\<rparr>) (Results r)\<rparr>"
proof -
  define fs where "fs = map (\<lambda>q. (1::nat, WBytes (marshal_QueryResult q))) (Results r)"
  have mr: "marshal_ReadResponse r = enc_fields fs" by (simp add: marshal_ReadResponse_def fs_def)
  have qr: "unmarshal_QueryResult (marshal_QueryResult q) =
            Inr \<lparr>Timeseries = map (\<lambda>t. t\<lparr>ts_samples := map h (ts_samples t)\<rparr>) (Timeseries q)\<rparr>"
    if "q \<in> set (Results r)" for q
    using QueryResult_decode [OF assms(1) [OF that]] member_bound [of q "Results r" 1 marshal_QueryResult fs]
      that assms(2)
    unfolding mr fs_def by simp
  have wf: "wf_fields ReadResponse_fields fs" by (simp add: fs_def wf_fields_def ReadResponse_fields_def list_all_iff)
  have "apply_fields ReadResponse_fields fs \<lparr>Results = []\<rparr> =
        Inr \<lparr>Results = [] @ map (\<lambda>q. \<lparr>Timeseries = map (\<lambda>t. t\<lparr>ts_samples := map h (ts_samples t)\<rparr>)
                                                (Timeseries q)\<rparr>) (Results r)\<rparr>"
    using apply_fields_repeated [of ReadResponse_fields 1 _ "Results r" "\<lambda>q. WBytes (marshal_QueryResult q)"
        "\<lambda>x m. m\<lparr>Results := Results m @
           [\<lparr>Timeseries = map (\<lambda>t. t\<lparr>ts_samples := map h (ts_samples t)\<rparr>) (Timeseries x)\<rparr>]\<rparr>"] qr
    by (simp add: fs_def ReadResponse_fields_def fold_append_Results)
  then show ?thesis
    unfolding unmarshal_ReadResponse_def mr unmarshal_enc_fields [OF wf assms(2) [unfolded mr]] by simp
qed

definition response_no_neg_zero :: "ReadResponse \<Rightarrow> bool" where
  "response_no_neg_zero r \<longleftrightarrow>
     list_all (\<lambda>q. list_all (\<lambda>t. list_all (\<lambda>s. no_neg_zero (sample_value s)) (ts_samples t)) (Timeseries q))
       (Results r)"

lemma ReadResponse_roundtrip:
  assumes "response_no_neg_zero r" "length (marshal_ReadResponse r) < 2 ^ 63"
  shows "unmarshal_ReadResponse (marshal_ReadResponse r) = Inr r"
proof -
  have "unmarshal_ReadResponse (marshal_ReadResponse r) =
        Inr \<lparr>Results = map (\<lambda>q. \<lparr>Timeseries = map (\<lambda>t. t\<lparr>ts_samples := map id (ts_samples t)\<rparr>)
                                                (Timeseries q)\<rparr>) (Results r)\<rparr>"
    by (rule ReadResponse_decode [OF _ assms(2)])
       (use assms(1) in \<open>auto simp: response_no_neg_zero_def list_all_iff intro: Sample_roundtrip\<close>)
  then show ?thesis by (simp add: map_idI)
qed

subsection \<open>The mapper never writes a negative zero\<close>

lemma f64_pack_exp: "e < 2048 \<Longrightarrow> f < 2 ^ 52 \<Longrightarrow> f64_exp (f64_pack s e f) = e"
  using f64_pack_fields by blast

lemma float64_of_int_exp_pos:
  assumes x0: "x \<noteq> 0" and xb: "\<bar>x\<bar> \<le> 2 ^ 63"
  shows "0 < f64_exp (float64_of_int x)"
proof -
  define m where "m = nat \<bar>x\<bar>"
  define e where "e = bitlen m - 1"
  have m0: "0 < m" using x0 by (simp add: m_def)
  have b: "2 ^ e \<le> m" "m < 2 ^ Suc e"
    using bitlen_bounds [OF m0] m0 unfolding e_def by (simp_all, cases "bitlen m", simp_all)
  have "m \<le> 2 ^ 63" using xb by (simp add: m_def nat_le_iff)
  then have "(2::nat) ^ e < 2 ^ 64" using b(1) by simp
  then have e64: "e < 64" using power_less_imp_less_exp [of "2::nat" e 64] by simp
  show ?thesis
  proof (cases "e \<le> 52")
    case True
    define f where "f = m * 2 ^ (52 - e) - 2 ^ 52"
    have "m * 2 ^ (52 - e) < 2 ^ Suc e * 2 ^ (52 - e)" using b(2) by simp
    also have "\<dots> = 2 ^ 53" using True by (simp flip: power_add)
    finally have f: "f < 2 ^ 52" by (simp add: f_def)
    have "float64_of_int x = f64_pack (x < 0) (e + 1023) f"
      unfolding float64_of_int_def
      by (simp only: x0 if_False Let_def m_def [symmetric] e_def [symmetric] True if_True f_def [symmetric])
    then show ?thesis using f64_pack_exp [of "e + 1023" f] f e64 by simp
  next
    case False
    define sh where "sh = e - 52"
    define q where "q = m div 2 ^ sh"
    define r where "r = m mod 2 ^ sh"
    define q' where "q' = (if 2 ^ (sh - 1) < r \<or> (r = 2 ^ (sh - 1) \<and> odd q) then q + 1 else q)"
    have "53 + sh = Suc e" using False by (simp add: sh_def)
    then have "(2::nat) ^ 53 * 2 ^ sh = 2 ^ Suc e" by (simp only: power_add [symmetric])
    then have "m < 2 ^ 53 * 2 ^ sh" using b(2) by simp
    then have "q < 2 ^ 53" by (simp add: q_def less_mult_imp_div_less)
    then have q': "q' \<le> 2 ^ 53" by (simp add: q'_def)
    have conv: "float64_of_int x =
        (if q' = 2 ^ 53 then f64_pack (x < 0) (e + 1024) 0 else f64_pack (x < 0) (e + 1023) (q' - 2 ^ 52))"
      unfolding float64_of_int_def
      by (simp only: x0 if_False Let_def m_def [symmetric] e_def [symmetric] False sh_def [symmetric]
          q_def [symmetric] r_def [symmetric] q'_def [symmetric])
    show ?thesis
    proof (cases "q' = 2 ^ 53")
      case True
      then show ?thesis using conv f64_pack_exp [of "e + 1024" 0] e64 by simp
    next
      case False
      then have "q' - 2 ^ 52 < 2 ^ 52" using q' by simp
      then show ?thesis using conv False f64_pack_exp [of "e + 1023" "q' - 2 ^ 52"] e64 by simp
    qed
  qed
qed

lemma float64_of_int_no_neg_zero: "\<bar>x\<bar> \<le> 2 ^ 63 \<Longrightarrow> no_neg_zero (float64_of_int x)"
  using float64_of_int_exp_pos [of x]
  by (cases "x = 0") (simp_all add: no_neg_zero_def f64_is_zero_def float64_of_int_def)


lemma map_datapoint_no_neg_zero: "map_datapoint dp = Inr s \<Longrightarrow> no_neg_zero (sample_value s)"
proof (cases dp rule: map_datapoint.cases)
  case (1 v t rest)
  have "\<bar>sint v\<bar> \<le> 2 ^ 63"
    using sint_ge [of v] sint_lt [of v] by (simp add: abs_le_iff)
  then show "map_datapoint dp = Inr s \<Longrightarrow> no_neg_zero (sample_value s)"
    using 1 float64_of_int_no_neg_zero by auto
qed simp_all


lemma map_serie_no_neg_zero:
  "map_serie p s = Inr t \<Longrightarrow> list_all (\<lambda>x. no_neg_zero (sample_value x)) (ts_samples t)"
  by (auto simp: map_serie_def list_all_iff split: sum.splits
      dest: map_or_fail_Inr_set intro: map_datapoint_no_neg_zero)

lemma map_result_no_neg_zero:
  "map_result p series = Inr ts \<Longrightarrow>
   list_all (\<lambda>t. list_all (\<lambda>x. no_neg_zero (sample_value x)) (ts_samples t)) ts"
  unfolding map_result_def list_all_iff
  by (metis map_or_fail_Inr_set map_serie_no_neg_zero list_all_iff)

lemma runQuery_Inr_cases:
  "snd (runQuery env region q) = Inr ts \<Longrightarrow> ts = [] \<or> (\<exists>p res. map_result p res = Inr ts)"
  by (auto simp: runQuery_def Let_def split: sum.splits if_splits)


lemma read_value_bytes_eof:
  assumes "varint_at d i 0 0 = Inr (word_of_nat n, j)" "n < 2 ^ 62" "j < 2 ^ 62" "length d < j + n"
  shows "read_value 2 d i = Inl err_unexpected_eof"
proof -
  have "sint (word_of_nat n :: 64 word) = int n" using assms(2) by (intro sint64_small) simp
  moreover have "\<not> index_overflows j (int n)" using assms(2,3) by (simp add: index_overflows_def)
  ultimately show ?thesis using assms(1,4) by (simp add: read_value_def)
qed

subsection \<open>Properties\<close>

lemma Query_unknown_fields:
  assumes "wf_fields Query_fields us" "list_all (\<lambda>(f, v). Query_fields (int f) = None) us"
    and "length (marshal_Query q @ enc_fields us) < 2 ^ 63"
  shows "unmarshal_Query (marshal_Query q @ enc_fields us) = Inr q"
proof -
  have e: "marshal_Query q @ enc_fields us = enc_fields (Query_wire q @ us)"
    by (simp add: marshal_Query_def)
  have "length (enc_fields (Query_wire q)) < 2 ^ 63" using assms(3) by (simp add: marshal_Query_def)
  then have "apply_fields Query_fields (Query_wire q) \<lparr>StartTimestampMs = 0, EndTimestampMs = 0, Matchers = []\<rparr> = Inr q"
    by (rule Query_apply)
  moreover have wf: "wf_fields Query_fields (Query_wire q @ us)" using assms(1) Query_wire_wf by simp
  moreover have len: "length (enc_fields (Query_wire q @ us)) < 2 ^ 63" using assms(3) e by simp
  ultimately show ?thesis
    unfolding unmarshal_Query_def e unmarshal_enc_fields [OF wf len] apply_fields_append
    using apply_fields_unknown [OF assms(2)] by simp
qed

text \<open>
  Fields a message's schema does not know, as a later protocol version may
  send them: numbers below \<open>2^28\<close>, none of them known to the table.
\<close>

definition unknown_fields :: "(int \<Rightarrow> 'm field_decl option) \<Rightarrow> (nat \<times> wire_val) list \<Rightarrow> bool" where
  "unknown_fields sch us \<longleftrightarrow> wf_fields sch us \<and> list_all (\<lambda>(f, v). sch (int f) = None) us"

text \<open>
  C30: forward compatibility of the request decoder. Prometheus's encoding
  of a \<open>ReadRequest\<close> whose queries and envelope carry fields this schema
  does not know (the \<open>hints\<close> of a query, the \<open>accepted_response_types\<close>
  of the envelope, of any wire type but groups) decodes to exactly the
  queries that were sent, in order.
\<close>

theorem ReadRequest_unknown_fields:
  assumes "list_all (\<lambda>q. unknown_fields Query_fields (hs q)) qs" "unknown_fields ReadRequest_fields us"
    and "length (enc_fields (map (\<lambda>q. (1, WBytes (marshal_Query q @ enc_fields (hs q)))) qs @ us)) < 2 ^ 63"
  shows "unmarshal_ReadRequest (enc_fields (map (\<lambda>q. (1, WBytes (marshal_Query q @ enc_fields (hs q)))) qs @ us)) =
         Inr \<lparr>Queries = qs\<rparr>"
proof -
  define fs where "fs = map (\<lambda>q. (1::nat, WBytes (marshal_Query q @ enc_fields (hs q)))) qs"
  have qd: "unmarshal_Query (marshal_Query q @ enc_fields (hs q)) = Inr q" if "q \<in> set qs" for q
  proof (rule Query_unknown_fields)
    show "wf_fields Query_fields (hs q)" "list_all (\<lambda>(f, v). Query_fields (int f) = None) (hs q)"
      using assms(1) that by (simp_all add: list_all_iff unknown_fields_def)
    have "(1, WBytes (marshal_Query q @ enc_fields (hs q))) \<in> set (fs @ us)" using that by (simp add: fs_def)
    then show "length (marshal_Query q @ enc_fields (hs q)) < 2 ^ 63"
      using enc_fields_member_length assms(3) unfolding fs_def by fastforce
  qed
  have ap: "apply_fields ReadRequest_fields fs \<lparr>Queries = []\<rparr> = Inr \<lparr>Queries = [] @ qs\<rparr>"
    using apply_fields_repeated [of ReadRequest_fields 1 _ qs "\<lambda>q. WBytes (marshal_Query q @ enc_fields (hs q))"
        "\<lambda>x m. m\<lparr>Queries := Queries m @ [x]\<rparr>"] qd
    by (simp add: fs_def ReadRequest_fields_def fold_append_Queries)
  have "wf_fields ReadRequest_fields fs"
    by (simp add: fs_def wf_fields_def ReadRequest_fields_def list_all_iff)
  then have wf: "wf_fields ReadRequest_fields (fs @ us)"
    using assms(2) by (simp add: unknown_fields_def)
  show ?thesis
    unfolding unmarshal_ReadRequest_def fs_def [symmetric] unmarshal_enc_fields [OF wf assms(3) [folded fs_def]]
      apply_fields_append
    using ap apply_fields_unknown [of ReadRequest_fields us] assms(2) by (simp add: unknown_fields_def)
qed

definition hints_query :: Query where
  "hints_query = \<lparr>StartTimestampMs = 1000, EndTimestampMs = 5000,
     Matchers = [\<lparr>lm_type = EQ, lm_name = ''functionName'', lm_value = ''f1''\<rparr>]\<rparr>"

theorem ReadRequest_unknown_fields_witness:
  "list_all (\<lambda>q. unknown_fields Query_fields ((\<lambda>_. [(4, WBytes ''hints'')]) q)) [hints_query] \<and>
   unknown_fields ReadRequest_fields [(2, WBytes [CHR 0x00])] \<and>
   length (enc_fields (map (\<lambda>q. (1, WBytes (marshal_Query q @ enc_fields ((\<lambda>_. [(4, WBytes ''hints'')]) q))))
      [hints_query] @ [(2, WBytes [CHR 0x00])])) < 2 ^ 63 \<and>
   unmarshal_ReadRequest (enc_fields (map (\<lambda>q. (1, WBytes (marshal_Query q @ enc_fields ((\<lambda>_. [(4, WBytes ''hints'')]) q))))
      [hints_query] @ [(2, WBytes [CHR 0x00])])) = Inr \<lparr>Queries = [hints_query]\<rparr>"
proof -
  have h: "list_all (\<lambda>q. unknown_fields Query_fields ((\<lambda>_. [(4, WBytes ''hints'')]) q)) [hints_query]"
    by (simp add: unknown_fields_def wf_fields_def Query_fields_def)
  have u: "unknown_fields ReadRequest_fields [(2, WBytes [CHR 0x00])]"
    by (simp add: unknown_fields_def wf_fields_def ReadRequest_fields_def)
  have l: "length (enc_fields (map (\<lambda>q. (1, WBytes (marshal_Query q @ enc_fields ((\<lambda>_. [(4, WBytes ''hints'')]) q))))
      [hints_query] @ [(2, WBytes [CHR 0x00])])) < 2 ^ 63"
    by code_simp
  show ?thesis using ReadRequest_unknown_fields [OF h u l] h u l by blast
qed

text \<open>
  C31: a request whose first key is an over-long varint (ten bytes with
  the continuation bit) is rejected with \<open>proto: integer overflow\<close>, which
  the handler answers with 400.
\<close>

theorem ReadRequest_overlong_key:
  assumes "length bs = 10" "list_all (\<lambda>b. 128 \<le> (of_char b :: nat)) bs"
  shows "unmarshal_ReadRequest (bs @ r) = Inl err_int_overflow"
proof -
  have v: "varint_at (bs @ r) 0 0 0 = Inl err_int_overflow"
    using varint_overlong_rejected [OF assms, of "[]" r 0] by simp
  have "0 < length (bs @ r)" using assms(1) by simp
  then show ?thesis
    unfolding unmarshal_ReadRequest_def using v by (subst unmarshal_loop.simps) simp
qed

theorem ReadRequest_overlong_key_witness:
  "length (replicate 10 (CHR 0xFF)) = 10 \<and> list_all (\<lambda>b. 128 \<le> (of_char b :: nat)) (replicate 10 (CHR 0xFF)) \<and>
   unmarshal_ReadRequest (replicate 10 (CHR 0xFF) @ ''x'') = Inl err_int_overflow"
proof -
  have l: "length (replicate 10 (CHR 0xFF)) = 10" by simp
  have a: "list_all (\<lambda>b. 128 \<le> (of_char b :: nat)) (replicate 10 (CHR 0xFF))" by code_simp
  show ?thesis using ReadRequest_overlong_key [OF l a, of "''x''"] l a by blast
qed



text \<open>
  C33: \<open>int32(wire >> 3)\<close> keeps the low 32 bits of a field number, so a
  query sent under field number \<open>1 + k * 2^32\<close> is read as the
  \<open>Queries\<close> field (protobuf allows numbers below \<open>2^29\<close> only).
\<close>

theorem ReadRequest_field_alias:
  assumes "k < 2 ^ 28" "length (enc_field (1 + k * 2 ^ 32) (WBytes (marshal_Query q))) < 2 ^ 63"
  shows "unmarshal_ReadRequest (enc_field (1 + k * 2 ^ 32) (WBytes (marshal_Query q))) = Inr \<lparr>Queries = [q]\<rparr>"
proof -
  define f :: nat where "f = 1 + k * 2 ^ 32"
  have fb: "f * 8 + wire_type_of (WBytes (marshal_Query q)) < 2 ^ 64" using assms(1) by (simp add: f_def)
  have "f mod 2 ^ 32 = 1" unfolding f_def by (simp only: mod_mult_self1) simp
  then have "(word_of_nat f :: 32 word) = word_of_nat 1"
    by (simp only: word_unat_eq_iff unsigned_of_nat take_bit_eq_mod) simp
  then have s1: "sint (word_of_nat f :: 32 word) = 1" by simp
  have lq: "length (marshal_Query q) < 2 ^ 63"
    using assms(2) enc_payload_bytes_length [of "marshal_Query q"] by (simp add: enc_field_def)
  define v where "v = WBytes (marshal_Query q)"
  define fd where "fd = the (ReadRequest_fields 1)"
  have sf: "ReadRequest_fields (sint (word_of_nat f :: 32 word)) = Some fd"
    using s1 by (simp add: fd_def ReadRequest_fields_def)
  have fw: "fd_wire fd = wire_type_of v" by (simp add: fd_def ReadRequest_fields_def v_def)
  have st: "fd_set fd v \<lparr>Queries = []\<rparr> = Inr \<lparr>Queries = [q]\<rparr>"
    using Query_roundtrip [OF lq] by (simp add: fd_def ReadRequest_fields_def v_def)
  have l: "length ([] @ enc_field f v @ []) < 2 ^ 63" using assms(2) by (simp add: f_def v_def)
  have "unmarshal_loop ''ReadRequest'' ReadRequest_fields ([] @ enc_field f v @ []) (length ([] :: bytes))
          \<lparr>Queries = []\<rparr> = Inr \<lparr>Queries = [q]\<rparr>"
    using unmarshal_loop_known_key [where sch = ReadRequest_fields and p = "[]" and r = "[]" and f = f and v = v,
        OF fb [folded v_def] _ sf fw l] s1 st unmarshal_loop_end by simp
  then show ?thesis
    unfolding unmarshal_ReadRequest_def f_def [symmetric] v_def [symmetric] by simp
qed

theorem ReadRequest_field_alias_witness:
  "(1::nat) < 2 ^ 28 \<and> length (enc_field (1 + 1 * 2 ^ 32) (WBytes (marshal_Query hints_query))) < 2 ^ 63 \<and>
   unmarshal_ReadRequest (enc_field (1 + 1 * 2 ^ 32) (WBytes (marshal_Query hints_query))) =
   Inr \<lparr>Queries = [hints_query]\<rparr>"
proof -
  have k: "(1::nat) < 2 ^ 28" by simp
  have l: "length (enc_field (1 + 1 * 2 ^ 32) (WBytes (marshal_Query hints_query))) < 2 ^ 63" by code_simp
  show ?thesis using ReadRequest_field_alias [OF k l] k l by blast
qed

text \<open>
  C34: what \<open>proto.Marshal\<close> makes of a response, Prometheus decodes to the
  same response except that a sample value \<open>-0.0\<close> becomes \<open>+0.0\<close>
  (proto3 leaves out a value that compares equal to zero); every other value,
  NaN included, is read back bit for bit, with its labels, timestamps and
  the order of series and samples.
\<close>

theorem response_wire_normalises:
  assumes "proto_marshal_gogo r = Inr data" "length data < 2 ^ 63"
  shows "unmarshal_ReadResponse data = Inr (norm_response r)"
proof -
  have d: "data = marshal_ReadResponse r" using assms(1) by (simp add: proto_marshal_gogo_def)
  show ?thesis
    unfolding d norm_response_def
    by (rule ReadResponse_decode) (use assms(2) d Sample_roundtrip_norm in simp_all)
qed

definition neg_zero_response :: ReadResponse where
  "neg_zero_response =
     \<lparr>Results = [\<lparr>Timeseries = [\<lparr>ts_labels = [\<lparr>label_name = ''__name__'', label_value = ''m''\<rparr>],
        ts_samples = [\<lparr>sample_value = 0x8000000000000000, sample_timestamp = 5\<rparr>,
                      \<lparr>sample_value = 0x4000000000000000, sample_timestamp = 6\<rparr>]\<rparr>]\<rparr>]\<rparr>"

theorem response_wire_normalises_witness:
  "proto_marshal_gogo neg_zero_response = Inr (marshal_ReadResponse neg_zero_response) \<and>
   length (marshal_ReadResponse neg_zero_response) < 2 ^ 63 \<and>
   unmarshal_ReadResponse (marshal_ReadResponse neg_zero_response) =
   Inr \<lparr>Results = [\<lparr>Timeseries = [\<lparr>ts_labels = [\<lparr>label_name = ''__name__'', label_value = ''m''\<rparr>],
        ts_samples = [\<lparr>sample_value = 0, sample_timestamp = 5\<rparr>,
                      \<lparr>sample_value = 0x4000000000000000, sample_timestamp = 6\<rparr>]\<rparr>]\<rparr>]\<rparr>"
proof -
  have p: "proto_marshal_gogo neg_zero_response = Inr (marshal_ReadResponse neg_zero_response)"
    by (simp add: proto_marshal_gogo_def)
  have l: "length (marshal_ReadResponse neg_zero_response) < 2 ^ 63" by code_simp
  have n: "norm_response neg_zero_response =
     \<lparr>Results = [\<lparr>Timeseries = [\<lparr>ts_labels = [\<lparr>label_name = ''__name__'', label_value = ''m''\<rparr>],
        ts_samples = [\<lparr>sample_value = 0, sample_timestamp = 5\<rparr>,
                      \<lparr>sample_value = 0x4000000000000000, sample_timestamp = 6\<rparr>]\<rparr>]\<rparr>]\<rparr>"
    by (simp add: norm_response_def neg_zero_response_def norm_sample_def)
  show ?thesis using response_wire_normalises [OF p l, unfolded n] p l by blast
qed

text \<open>
  C35: a request whose \<open>Queries\<close> field announces more bytes than remain is
  rejected with \<open>unexpected EOF\<close>, which the handler answers with 400.
\<close>

theorem ReadRequest_truncated:
  assumes "length b < n" "n < 2 ^ 62"
  shows "unmarshal_ReadRequest (enc_varint 10 @ enc_varint (word_of_nat n) @ b) = Inl err_unexpected_eof"
proof -
  define d where "d = enc_varint 10 @ enc_varint (word_of_nat n) @ b"
  have k10: "enc_varint 10 = [char_of (10::nat)]" by (simp add: enc_varint.simps)
  have key: "varint_at d 0 0 0 = Inr (10, 1)"
    using varint_roundtrip_at [of "[]" 10 "enc_varint (word_of_nat n) @ b"] by (simp add: d_def k10)
  have kf: "key_field 10 = 1" and kw: "key_wire_type 10 = 2"
    using key_decode [of 1 2] by simp_all
  have len: "varint_at d 1 0 0 = Inr (word_of_nat n, 1 + length (enc_varint (word_of_nat n)))"
    using varint_roundtrip_at [of "enc_varint 10" "word_of_nat n" b] by (simp add: d_def k10)
  have "length (enc_varint (word_of_nat n)) \<le> 10" by (rule enc_varint_length)
  then have rv: "read_value 2 d 1 = Inl err_unexpected_eof"
    using read_value_bytes_eof [OF len] assms by (simp add: d_def k10)
  have ne: "0 < length d" by (simp add: d_def k10)
  show ?thesis
    unfolding unmarshal_ReadRequest_def d_def [symmetric]
    using ne key kf kw rv
    by (subst unmarshal_loop.simps) (simp add: ReadRequest_fields_def)
qed

theorem ReadRequest_truncated_witness:
  "length ''ab'' < (5::nat) \<and> (5::nat) < 2 ^ 62 \<and>
   unmarshal_ReadRequest (enc_varint 10 @ enc_varint (word_of_nat 5) @ ''ab'') = Inl err_unexpected_eof"
  using ReadRequest_truncated [of "''ab''" 5] by simp

end
