(* ===== verification/Snappy.thy ===== *)
theory Snappy
  imports Wire
begin

unbundle bit_operations_syntax

text \<open>
  The snappy block format as github.com/golang/snappy reads and writes it,
  the library src/main.go calls through \<open>snappy.Decode(nil, compressed)\<close>
  on a request body (line 163) and \<open>snappy.Encode(nil, data)\<close> on the
  marshalled response (line 196). The library is not part of the repository:
  it is modelled from its pure-Go sources (decode_other.go,
  encode_other.go), whose behaviour the assembly versions share. A block is
  the decoded length as a \<open>binary.Uvarint\<close>, then elements: a literal
  (tag 0, its length in the tag or in 1 to 4 following bytes) or a copy of
  earlier output (tags 1, 2, 3 with an offset of 11, 16 or 32 bits). The
  decoder checks every bound and answers \<open>snappy: corrupt input\<close>; the
  encoder splits its input into blocks of 64 KiB and writes each as one
  literal when it is shorter than 17 bytes, else through \<open>encodeBlock\<close>,
  whose hash-table match finder is a parameter here: a function choosing the
  elements of a block, which \<open>emitLiteral\<close> and \<open>emitCopy\<close> then write.
  \<open>int\<close> is 64 bits wide, so the 32-bit \<open>ErrTooLarge\<close> branch of
  \<open>decodedLen\<close> and the unsupported-literal-length error (a literal length
  \<open>int(x) + 1\<close> of a \<open>uint32\<close> is never negative) cannot occur.
\<close>

subsection \<open>Decoding\<close>

definition err_corrupt :: go_error where
  "err_corrupt = GoErr ''snappy: corrupt input''"

text \<open>
  \<open>binary.Uvarint\<close>: the value and the number of bytes read, \<open>0\<close> for a
  buffer that ends inside the varint, \<open>-(i+1)\<close> for an overflow at byte
  \<open>i\<close> (an eleventh byte, or a tenth byte above 1).
\<close>

fun uvarint_loop :: "bytes \<Rightarrow> nat \<Rightarrow> 64 word \<Rightarrow> 64 word \<times> int" where
  "uvarint_loop [] i x = (0, 0)"
| "uvarint_loop (c # bs) i x =
     (if i = 10 then (0, - int (Suc i))
      else
        let b = of_char c :: nat
        in if b < 128 then
             (if i = 9 \<and> 1 < b then (0, - int (Suc i))
              else (x OR push_bit (7 * i) (word_of_nat b), int (Suc i)))
           else uvarint_loop bs (Suc i) (x OR push_bit (7 * i) (word_of_nat (b AND 127))))"

text \<open>\<open>decodedLen\<close>: the block's length header, at most \<open>2^32 - 1\<close>.\<close>

definition decoded_len :: "bytes \<Rightarrow> go_error + nat \<times> nat" where
  "decoded_len src =
     (case uvarint_loop src 0 0 of
        (v, n) \<Rightarrow> if n \<le> 0 \<or> 0xffffffff < v then Inl err_corrupt else Inr (unat v, nat n))"

text \<open>The element a tag starts: a literal of a length, or a copy of an offset and a length.\<close>

datatype snappy_op = OpLiteral nat | OpCopy nat nat

text \<open>
  The tag at \<open>s\<close> and the bytes after it, with the bound check of each case
  (\<open>uint(s) > uint(len(src))\<close>); the result is the element and the index
  after its header.
\<close>

definition snappy_tag :: "bytes \<Rightarrow> nat \<Rightarrow> go_error + snappy_op \<times> nat" where
  "snappy_tag src s =
     (let t = of_char (src ! s) :: nat; x = t div 4
      in if t mod 4 = 0 then
           (if x < 60 then Inr (OpLiteral (x + 1), s + 1)
            else if length src < s + 1 + (x - 59) then Inl err_corrupt
            else Inr (OpLiteral (le_dec (take (x - 59) (drop (s + 1) src)) + 1), s + 1 + (x - 59)))
         else if t mod 4 = 1 then
           (if length src < s + 2 then Inl err_corrupt
            else Inr (OpCopy (t div 32 * 256 + of_char (src ! (s + 1))) (4 + x mod 8), s + 2))
         else if t mod 4 = 2 then
           (if length src < s + 3 then Inl err_corrupt
            else Inr (OpCopy (le_dec (take 2 (drop (s + 1) src))) (x + 1), s + 3))
         else
           (if length src < s + 5 then Inl err_corrupt
            else Inr (OpCopy (le_dec (take 4 (drop (s + 1) src))) (x + 1), s + 5)))"

text \<open>
  The overlapping copy: \<open>for end := d + length; d != end; d++ { dst[d] =
  dst[d-offset] }\<close>, forwards one byte at a time.
\<close>

fun copy_forward :: "nat \<Rightarrow> nat \<Rightarrow> bytes \<Rightarrow> bytes" where
  "copy_forward off 0 out = out"
| "copy_forward off (Suc n) out = copy_forward off n (out @ [out ! (length out - off)])"

lemma snappy_tag_advances: "snappy_tag src s = Inr (op, s') \<Longrightarrow> s < s'"
  by (auto simp: snappy_tag_def Let_def split: if_splits)

text \<open>
  \<open>decode(dst, src)\<close>: \<open>out\<close> is \<open>dst[:d]\<close> (\<open>dst\<close> has the decoded
  length \<open>dlen\<close>), \<open>s\<close> the index in \<open>src\<close>. A copy that does not overlap
  its source uses the built-in \<open>copy\<close>, an overlapping one the byte loop.
\<close>

function decode_loop :: "nat \<Rightarrow> bytes \<Rightarrow> nat \<Rightarrow> bytes \<Rightarrow> go_error + bytes" where
  "decode_loop dlen src s out =
     (if length src \<le> s then (if length out \<noteq> dlen then Inl err_corrupt else Inr out)
      else
        case snappy_tag src s of
          Inl e \<Rightarrow> Inl e
        | Inr (OpLiteral n, s') \<Rightarrow>
            if dlen - length out < n \<or> length src - s' < n then Inl err_corrupt
            else decode_loop dlen src (s' + n) (out @ take n (drop s' src))
        | Inr (OpCopy off n, s') \<Rightarrow>
            if off = 0 \<or> length out < off \<or> dlen - length out < n then Inl err_corrupt
            else if n \<le> off then decode_loop dlen src s' (out @ take n (drop (length out - off) out))
            else decode_loop dlen src s' (copy_forward off n out))"
  by pat_completeness auto
termination
  by (relation "measure (\<lambda>(dlen, src, s, out). length src - s)")
     (auto dest!: snappy_tag_advances)

declare decode_loop.simps [simp del]

text \<open>\<open>Decode(nil, src)\<close>: the header, then the elements after it.\<close>

definition snappy_Decode :: "bytes \<Rightarrow> go_error + bytes" where
  "snappy_Decode src =
     (case decoded_len src of
        Inl e \<Rightarrow> Inl e
      | Inr (dlen, s) \<Rightarrow> decode_loop dlen (drop s src) 0 [])"

subsection \<open>Encoding\<close>

text \<open>
  \<open>emitLiteral\<close>: the length minus one in the tag below 60, else in one
  byte (tag 60) or two (tag 61); then the bytes.
\<close>

definition emit_literal :: "bytes \<Rightarrow> bytes" where
  "emit_literal lit =
     (let n = length lit - 1
      in (if n < 60 then [char_of (n * 4)]
          else if n < 256 then [char_of (60 * 4 :: nat), char_of n]
          else [char_of (61 * 4 :: nat), char_of n, char_of (n div 256)]) @ lit)"

text \<open>
  \<open>emitCopy\<close>: copies of 64 bytes while 68 or more remain, one of 60 when
  65 to 67 remain, then the rest as a 2-byte copy (tag 1: length 4 to 11,
  offset below 2048) or a 3-byte one (tag 2).
\<close>

function emit_copy :: "nat \<Rightarrow> nat \<Rightarrow> bytes" where
  "emit_copy off len =
     (if 68 \<le> len then [char_of (63 * 4 + 2 :: nat), char_of off, char_of (off div 256)] @ emit_copy off (len - 64)
      else if 64 < len then [char_of (59 * 4 + 2 :: nat), char_of off, char_of (off div 256)] @ emit_copy off (len - 60)
      else if 12 \<le> len \<or> 2048 \<le> off then [char_of ((len - 1) * 4 + 2), char_of off, char_of (off div 256)]
      else [char_of (off div 256 * 32 + (len - 4) * 4 + 1), char_of off])"
  by pat_completeness auto
termination by (relation "measure (\<lambda>(off, len). len)") auto

declare emit_copy.simps [simp del]

text \<open>The elements a match finder chooses for a block.\<close>

datatype snappy_elem = Literal bytes | Copy nat nat

fun emit_elem :: "snappy_elem \<Rightarrow> bytes" where
  "emit_elem (Literal l) = emit_literal l"
| "emit_elem (Copy off n) = emit_copy off n"

text \<open>
  The loop of \<open>Encode\<close>: blocks of at most \<open>maxBlockSize\<close> = 65536 bytes;
  a block shorter than \<open>minNonLiteralBlockSize\<close> = 17 is one literal, a
  longer one is written by \<open>encodeBlock\<close>, the elements \<open>m p\<close> its match
  finder chooses.
\<close>

function encode_blocks :: "(bytes \<Rightarrow> snappy_elem list) \<Rightarrow> bytes \<Rightarrow> bytes" where
  "encode_blocks m src =
     (if src = [] then []
      else
        let p = take 65536 src
        in (if length p < 17 then emit_literal p else concat (map emit_elem (m p)))
           @ encode_blocks m (drop 65536 src))"
  by pat_completeness auto
termination by (relation "measure (\<lambda>(m, src). length src)") auto

declare encode_blocks.simps [simp del]

text \<open>
  \<open>Encode(nil, src)\<close>: \<open>MaxEncodedLen\<close> is negative (and \<open>Encode\<close>
  panics) above \<open>2^32 - 1\<close> bytes of input or of worst-case output; else the
  length as \<open>binary.PutUvarint\<close> writes it (the same bytes as
  \<open>enc_varint\<close>) and the blocks.
\<close>

definition snappy_Encode :: "(bytes \<Rightarrow> snappy_elem list) \<Rightarrow> bytes \<Rightarrow> go_error + bytes" where
  "snappy_Encode m src =
     (if 0xffffffff < length src \<or> 0xffffffff < 32 + length src + length src div 6
      then Inl (GoPanic ''snappy: decoded block is too large'')
      else Inr (enc_varint (word_of_nat (length src)) @ encode_blocks m src))"

text \<open>
  What a sequence of elements produces after the output \<open>out\<close>, and the
  contract of a match finder: literals of 1 to 65536 bytes, copies of at
  least 4 bytes whose offset is positive, below 65536 and within the block
  written so far; the elements reproduce the block.
\<close>

fun elems_out :: "bytes \<Rightarrow> snappy_elem list \<Rightarrow> bytes" where
  "elems_out out [] = out"
| "elems_out out (Literal l # es) = elems_out (out @ l) es"
| "elems_out out (Copy off n # es) = elems_out (copy_forward off n out) es"

fun elems_ok :: "nat \<Rightarrow> snappy_elem list \<Rightarrow> bool" where
  "elems_ok d [] = True"
| "elems_ok d (Literal l # es) \<longleftrightarrow> l \<noteq> [] \<and> length l \<le> 65536 \<and> elems_ok (d + length l) es"
| "elems_ok d (Copy off n # es) \<longleftrightarrow> 0 < off \<and> off \<le> d \<and> off < 65536 \<and> 4 \<le> n \<and> elems_ok (d + n) es"

definition match_ok :: "(bytes \<Rightarrow> snappy_elem list) \<Rightarrow> bytes \<Rightarrow> bool" where
  "match_ok m p \<longleftrightarrow> elems_ok 0 (m p) \<and> elems_out [] (m p) = p"

text \<open>The match finder that never matches: every block one literal.\<close>

definition literal_blocks :: "bytes \<Rightarrow> snappy_elem list" where
  "literal_blocks p = [Literal p]"

subsection \<open>Lemmas\<close>


lemma of_char_mod: "of_char (char_of n :: char) = (n::nat) mod 256"
  by (simp add: of_char_of take_bit_eq_mod)

lemma le_dec_1: "n < 256 \<Longrightarrow> le_dec [char_of n] = n"
  by (simp add: of_char_mod)

lemma le_dec_2: "n < 65536 \<Longrightarrow> le_dec [char_of n, char_of (n div 256)] = n"
  by (simp add: of_char_mod)

lemma copy_forward_length [simp]: "length (copy_forward off n out) = length out + n"
  by (induction n arbitrary: out) simp_all

lemma copy_forward_add: "copy_forward off (a + b) out = copy_forward off b (copy_forward off a out)"
  by (induction a arbitrary: out) simp_all

lemma copy_forward_snoc:
  "copy_forward off (Suc n) out = copy_forward off n out @ [copy_forward off n out ! (length out + n - off)]"
  using copy_forward_add [of off n 1 out] by simp

text \<open>The built-in \<open>copy\<close> of a copy that does not overlap is the byte loop.\<close>

lemma copy_forward_slice:
  "n \<le> off \<Longrightarrow> off \<le> length out \<Longrightarrow> copy_forward off n out = out @ take n (drop (length out - off) out)"
proof (induction n)
  case 0
  then show ?case by simp
next
  case (Suc n)
  then have IH: "copy_forward off n out = out @ take n (drop (length out - off) out)" by simp
  have lt: "n < length (drop (length out - off) out)" using Suc.prems by simp
  have "(out @ take n (drop (length out - off) out)) ! (length out + n - off) = drop (length out - off) out ! n"
    using Suc.prems by (simp add: nth_append)
  then show ?case
    unfolding copy_forward_snoc IH using lt by (simp add: take_Suc_conv_app_nth)
qed

lemma copy_forward_prepend:
  "off \<le> length out \<Longrightarrow> copy_forward off n (pre @ out) = pre @ copy_forward off n out"
proof (induction n arbitrary: out)
  case 0
  then show ?case by simp
next
  case (Suc n)
  have "\<not> length pre + length out - off < length pre" using Suc.prems by linarith
  then have "(pre @ out) ! (length (pre @ out) - off) = out ! (length out - off)"
    using Suc.prems by (simp add: nth_append)
  then show ?case using Suc.IH [of "out @ [out ! (length out - off)]"] Suc.prems by simp
qed


lemma decode_loop_end:
  "decode_loop dlen src (length src) out = (if length out \<noteq> dlen then Inl err_corrupt else Inr out)"
  by (subst decode_loop.simps) simp

lemma decode_lit_op:
  assumes "snappy_tag src s = Inr (OpLiteral n, s')" "s < length src"
    and "length out + n \<le> dlen" "s' + n \<le> length src"
  shows "decode_loop dlen src s out = decode_loop dlen src (s' + n) (out @ take n (drop s' src))"
proof -
  have "\<not> dlen - length out < n" "\<not> length src - s' < n" using assms(3,4) by linarith+
  then show ?thesis using assms(1,2) by (subst decode_loop.simps) simp
qed

lemma decode_copy_op:
  assumes "snappy_tag src s = Inr (OpCopy off n, s')" "s < length src"
    and "0 < off" "off \<le> length out" "length out + n \<le> dlen"
  shows "decode_loop dlen src s out = decode_loop dlen src s' (copy_forward off n out)"
proof -
  have "\<not> dlen - length out < n" "\<not> length out < off" "off \<noteq> 0" using assms(3-5) by linarith+
  then show ?thesis
    using assms(1,2,4) copy_forward_slice [of n off out] by (subst decode_loop.simps) simp
qed

lemma emit_literal_tag:
  assumes "l \<noteq> []" "length l \<le> 65536"
  obtains h where "emit_literal l = h @ l"
    and "snappy_tag (p @ h @ l @ r) (length p) = Inr (OpLiteral (length l), length p + length h)"
proof -
  define n where "n = length l - 1"
  have ln: "length l = n + 1" using assms(1) by (simp add: n_def)
  consider "n < 60" | "60 \<le> n" "n < 256" | "256 \<le> n" by linarith
  then show ?thesis
  proof cases
    case 1
    have t: "of_char (char_of (n * 4) :: char) = n * 4" using 1 by (simp add: of_char_mod)
    show ?thesis
      by (rule that [of "[char_of (n * 4)]"])
         (use 1 t in \<open>simp_all add: emit_literal_def Let_def n_def [symmetric] snappy_tag_def ln\<close>)
  next
    case 2
    have t: "of_char (char_of (240::nat) :: char) = (240::nat)" by (simp add: of_char_mod)
    show ?thesis
      by (rule that [of "[char_of (240::nat), char_of n]"])
         (use 2 t le_dec_1 [of n] in \<open>simp_all add: emit_literal_def Let_def n_def [symmetric] snappy_tag_def ln\<close>)
  next
    case 3
    have t: "of_char (char_of (244::nat) :: char) = (244::nat)" by (simp add: of_char_mod)
    have n: "n < 65536" using assms(2) ln by simp
    show ?thesis
      by (rule that [of "[char_of (244::nat), char_of n, char_of (n div 256)]"])
         (use 3 t le_dec_2 [OF n] in \<open>simp_all add: emit_literal_def Let_def n_def [symmetric] snappy_tag_def ln\<close>)
  qed
qed

lemma decode_literal:
  assumes "l \<noteq> []" "length l \<le> 65536" "length out + length l \<le> dlen"
  shows "decode_loop dlen (p @ emit_literal l @ r) (length p) out =
         decode_loop dlen (p @ emit_literal l @ r) (length p + length (emit_literal l)) (out @ l)"
proof -
  obtain h where e: "emit_literal l = h @ l"
    and t: "snappy_tag (p @ h @ l @ r) (length p) = Inr (OpLiteral (length l), length p + length h)"
    using emit_literal_tag [OF assms(1,2)] by metis
  have "decode_loop dlen (p @ h @ l @ r) (length p) out =
        decode_loop dlen (p @ h @ l @ r) (length p + length h + length l)
          (out @ take (length l) (drop (length p + length h) (p @ h @ l @ r)))"
    by (rule decode_lit_op [OF t]) (use assms(1,3) in simp_all)
  then show ?thesis by (simp add: e add.assoc)
qed


lemma tag_mod: "((a::nat) * 4 + b) mod 4 = b mod 4"
  by simp

lemma tag_div: "((a::nat) * 4 + b) div 4 = a + b div 4"
  by simp

lemma copy2_tag:
  assumes "0 < k" "k \<le> 64" "off < 65536"
  shows "snappy_tag (p @ [char_of ((k - 1) * 4 + 2), char_of off, char_of (off div 256)] @ r) (length p) =
         Inr (OpCopy off k, length p + 3)"
proof -
  define t :: nat where "t = (k - 1) * 4 + 2"
  have tc: "of_char (char_of t :: char) = t" using assms(2) by (simp add: t_def of_char_mod)
  have m: "t mod 4 = 2" "t div 4 + 1 = k"
    using tag_mod [of "k - 1" 2] tag_div [of "k - 1" 2] assms(1) by (simp_all add: t_def)
  show ?thesis
    unfolding t_def [symmetric] using tc m le_dec_2 [OF assms(3)] by (simp add: snappy_tag_def Let_def)
qed

lemma copy1_tag:
  assumes "4 \<le> k" "k < 12" "off < 2048"
  shows "snappy_tag (p @ [char_of (off div 256 * 32 + (k - 4) * 4 + 1), char_of off] @ r) (length p) =
         Inr (OpCopy off k, length p + 2)"
proof -
  define j where "j = k - 4"
  have j: "j < 8" "k = j + 4" using assms(1,2) by (simp_all add: j_def)
  define t :: nat where "t = off div 256 * 32 + j * 4 + 1"
  have "off div 256 < 8" using assms(3) by simp
  then have tc: "of_char (char_of t :: char) = t" using j(1) by (simp add: t_def of_char_mod)
  have m1: "t mod 4 = 1" using tag_mod [of "off div 256 * 8 + j" 1] by (simp add: t_def algebra_simps)
  have "t div 4 = off div 256 * 8 + j" using tag_div [of "off div 256 * 8 + j" 1] by (simp add: t_def algebra_simps)
  then have m2: "4 + t div 4 mod 8 = k" using j by simp
  have "j * 4 + 1 < 32" using j(1) by simp
  then have "t div 32 = off div 256" by (simp add: t_def add.assoc)
  then have m3: "t div 32 * 256 + off mod 256 = off" by simp
  show ?thesis
    unfolding j_def [symmetric] t_def [symmetric] using tc m1 m2 m3
    by (simp add: snappy_tag_def Let_def of_char_mod nth_append)
qed

lemma decode_emit_copy:
  "0 < off \<Longrightarrow> off < 65536 \<Longrightarrow> 4 \<le> n \<Longrightarrow> off \<le> length out \<Longrightarrow> length out + n \<le> dlen \<Longrightarrow>
   decode_loop dlen (p @ emit_copy off n @ r) (length p) out =
   decode_loop dlen (p @ emit_copy off n @ r) (length p + length (emit_copy off n)) (copy_forward off n out)"
proof (induction off n arbitrary: p out rule: emit_copy.induct)
  case (1 off len)
  show ?case
  proof (cases "68 \<le> len \<or> 64 < len")
    case True
    define k :: nat where "k = (if 68 \<le> len then 64 else 60)"
    define c where "c = [char_of ((k - 1) * 4 + 2), char_of off, char_of (off div 256)]"
    have e: "emit_copy off len = c @ emit_copy off (len - k)"
      using True by (subst emit_copy.simps) (auto simp: c_def k_def)
    have k: "0 < k" "k \<le> 64" "4 \<le> len - k" "k + (len - k) = len" using True by (auto simp: k_def)
    have tag: "snappy_tag (p @ c @ emit_copy off (len - k) @ r) (length p) = Inr (OpCopy off k, length p + 3)"
      unfolding c_def using copy2_tag [OF k(1,2) 1(4)] by simp
    have step: "decode_loop dlen (p @ c @ emit_copy off (len - k) @ r) (length p) out =
                decode_loop dlen (p @ c @ emit_copy off (len - k) @ r) (length p + 3) (copy_forward off k out)"
      by (rule decode_copy_op [OF tag]) (use 1(3,6,7) k in \<open>simp_all add: c_def\<close>)
    have IH: "decode_loop dlen ((p @ c) @ emit_copy off (len - k) @ r) (length (p @ c)) (copy_forward off k out) =
              decode_loop dlen ((p @ c) @ emit_copy off (len - k) @ r)
                (length (p @ c) + length (emit_copy off (len - k))) (copy_forward off (len - k) (copy_forward off k out))"
    proof (cases "68 \<le> len")
      case True
      then show ?thesis using 1(1) [where p = "p @ c" and out = "copy_forward off k out"] 1(3-7) k by (simp add: k_def)
    next
      case False
      then show ?thesis using 1(2) [where p = "p @ c" and out = "copy_forward off k out"] 1(3-7) k \<open>68 \<le> len \<or> 64 < len\<close>
        by (simp add: k_def)
    qed
    have cf: "copy_forward off (len - k) (copy_forward off k out) = copy_forward off len out"
      using copy_forward_add [of off k "len - k" out] k(4) by simp
    have lc: "length (p @ c) = length p + 3" by (simp add: c_def)
    have IH': "decode_loop dlen (p @ c @ emit_copy off (len - k) @ r) (length p + 3) (copy_forward off k out) =
               decode_loop dlen (p @ c @ emit_copy off (len - k) @ r)
                 (length p + 3 + length (emit_copy off (len - k))) (copy_forward off len out)"
      using IH unfolding append_assoc lc cf .
    have lc2: "length p + length (c @ emit_copy off (len - k)) = length p + 3 + length (emit_copy off (len - k))"
      by (simp add: c_def)
    show ?thesis
      unfolding e append_assoc lc2 using step IH' by (rule trans)
  next
    case False
    then have small: "len \<le> 64" by simp
    show ?thesis
    proof (cases "12 \<le> len \<or> 2048 \<le> off")
      case True
      define c where "c = [char_of ((len - 1) * 4 + 2), char_of off, char_of (off div 256)]"
      have e: "emit_copy off len = c" using False True by (subst emit_copy.simps) (simp add: c_def)
      have tag: "snappy_tag (p @ c @ r) (length p) = Inr (OpCopy off len, length p + 3)"
        unfolding c_def using copy2_tag [of len off p r] 1(4,5) small by simp
      have lc: "length c = 3" by (simp add: c_def)
      show ?thesis
        unfolding e lc by (rule decode_copy_op [OF tag]) (use 1(3,6,7) in \<open>simp_all add: c_def\<close>)
    next
      case c2: False
      define c where "c = [char_of (off div 256 * 32 + (len - 4) * 4 + 1), char_of off]"
      have e: "emit_copy off len = c" using False c2 by (subst emit_copy.simps) (simp add: c_def)
      have tag: "snappy_tag (p @ c @ r) (length p) = Inr (OpCopy off len, length p + 2)"
        unfolding c_def using copy1_tag [of len off p r] 1(5) c2 by simp
      have lc: "length c = 2" by (simp add: c_def)
      show ?thesis
        unfolding e lc by (rule decode_copy_op [OF tag]) (use 1(3,6,7) in \<open>simp_all add: c_def\<close>)
    qed
  qed
qed


lemma elems_out_length: "length out \<le> length (elems_out out es)"
  by (induction out es rule: elems_out.induct) (auto intro: le_trans [rotated])

lemma elems_ok_mono: "elems_ok d es \<Longrightarrow> d \<le> d' \<Longrightarrow> elems_ok d' es"
  by (induction d es arbitrary: d' rule: elems_ok.induct) auto

lemma elems_out_prepend: "elems_ok (length out) es \<Longrightarrow> elems_out (pre @ out) es = pre @ elems_out out es"
  by (induction out es rule: elems_out.induct) (simp_all add: copy_forward_prepend)

lemma decode_elems:
  "elems_ok (length out) es \<Longrightarrow> length (elems_out out es) \<le> dlen \<Longrightarrow>
   decode_loop dlen (p @ concat (map emit_elem es) @ r) (length p) out =
   decode_loop dlen (p @ concat (map emit_elem es) @ r) (length p + length (concat (map emit_elem es)))
     (elems_out out es)"
proof (induction out es arbitrary: p rule: elems_out.induct)
  case (1 out)
  then show ?case by simp
next
  case (2 out l es)
  have b: "length out + length l \<le> dlen" using 2(3) elems_out_length [of "out @ l" es] by simp
  have "decode_loop dlen (p @ emit_literal l @ concat (map emit_elem es) @ r) (length p) out =
        decode_loop dlen (p @ emit_literal l @ concat (map emit_elem es) @ r)
          (length p + length (emit_literal l)) (out @ l)"
    using 2(2) b by (intro decode_literal) simp_all
  moreover have "decode_loop dlen ((p @ emit_literal l) @ concat (map emit_elem es) @ r) (length (p @ emit_literal l)) (out @ l) =
        decode_loop dlen ((p @ emit_literal l) @ concat (map emit_elem es) @ r)
          (length (p @ emit_literal l) + length (concat (map emit_elem es))) (elems_out (out @ l) es)"
    using 2(1) [of "p @ emit_literal l"] 2(2,3) by simp
  ultimately show ?case by (simp add: add.assoc)
next
  case (3 out off n es)
  have b: "length out + n \<le> dlen" using 3(3) elems_out_length [of "copy_forward off n out" es] by simp
  have "decode_loop dlen (p @ emit_copy off n @ concat (map emit_elem es) @ r) (length p) out =
        decode_loop dlen (p @ emit_copy off n @ concat (map emit_elem es) @ r)
          (length p + length (emit_copy off n)) (copy_forward off n out)"
    using 3(2) b by (intro decode_emit_copy) simp_all
  moreover have "decode_loop dlen ((p @ emit_copy off n) @ concat (map emit_elem es) @ r) (length (p @ emit_copy off n))
          (copy_forward off n out) =
        decode_loop dlen ((p @ emit_copy off n) @ concat (map emit_elem es) @ r)
          (length (p @ emit_copy off n) + length (concat (map emit_elem es))) (elems_out (copy_forward off n out) es)"
    using 3(1) [of "p @ emit_copy off n"] 3(2,3) by simp
  ultimately show ?case by (simp add: add.assoc)
qed


lemma decode_blocks:
  "(\<And>p. 17 \<le> length p \<Longrightarrow> length p \<le> 65536 \<Longrightarrow> match_ok m p) \<Longrightarrow> length pre + length src \<le> dlen \<Longrightarrow>
   decode_loop dlen (q @ encode_blocks m src @ r) (length q) pre =
   decode_loop dlen (q @ encode_blocks m src @ r) (length q + length (encode_blocks m src)) (pre @ src)"
proof (induction m src arbitrary: q pre rule: encode_blocks.induct)
  case (1 m src)
  show ?case
  proof (cases "src = []")
    case True
    then show ?thesis by (simp add: encode_blocks.simps)
  next
    case False
    define p where "p = take 65536 src"
    define b where "b = (if length p < 17 then emit_literal p else concat (map emit_elem (m p)))"
    have e: "encode_blocks m src = b @ encode_blocks m (drop 65536 src)"
      using False by (subst encode_blocks.simps) (simp add: Let_def p_def b_def min_def)
    have ps: "p @ drop 65536 src = src" by (simp add: p_def)
    have bound: "length pre + length p \<le> dlen" using 1(3) by (simp add: p_def)
    have step: "decode_loop dlen (q @ b @ encode_blocks m (drop 65536 src) @ r) (length q) pre =
                decode_loop dlen (q @ b @ encode_blocks m (drop 65536 src) @ r) (length q + length b) (pre @ p)"
    proof (cases "length p < 17")
      case True
      have "p \<noteq> []" "length p \<le> 65536" using False by (simp_all add: p_def)
      moreover have "b = emit_literal p" using True by (simp add: b_def)
      ultimately show ?thesis
        using bound decode_literal [of p pre dlen q "encode_blocks m (drop 65536 src) @ r"] by simp
    next
      case long: False
      have mo: "match_ok m p" using 1(2) long by (simp add: p_def)
      then have ok: "elems_ok (length pre) (m p)" and out: "elems_out pre (m p) = pre @ p"
        using elems_ok_mono [of 0 "m p" "length pre"] elems_out_prepend [of "[]" "m p" pre]
        by (simp_all add: match_ok_def)
      have "b = concat (map emit_elem (m p))" using long by (simp add: b_def)
      then show ?thesis
        using decode_elems [OF ok, of dlen q "encode_blocks m (drop 65536 src) @ r"] out bound by simp
    qed
    have IH: "decode_loop dlen ((q @ b) @ encode_blocks m (drop 65536 src) @ r) (length (q @ b)) (pre @ p) =
              decode_loop dlen ((q @ b) @ encode_blocks m (drop 65536 src) @ r)
                (length (q @ b) + length (encode_blocks m (drop 65536 src))) ((pre @ p) @ drop 65536 src)"
      using 1(1) [OF False refl 1(2), where q = "q @ b" and pre = "pre @ p"] 1(3) by (simp add: p_def)
    show ?thesis
      unfolding e using step IH ps by (simp add: add.assoc)
  qed
qed

lemma uvarint_enc_nat:
  "i + length (enc_nat n) \<le> 9 \<Longrightarrow> a < 2 ^ (7 * i) \<Longrightarrow>
   uvarint_loop (enc_nat n @ r) i (word_of_nat a) = (word_of_nat (a + n * 2 ^ (7 * i)), int (i + length (enc_nat n)))"
proof (induction n arbitrary: i a rule: enc_nat.induct)
  case (1 n)
  show ?case
  proof (cases "n < 128")
    case True
    then have e: "enc_nat n = [char_of n]" by (simp add: enc_nat.simps [of n])
    have "of_char (char_of n :: char) = n" using True by (simp add: of_char_mod)
    then show ?thesis using True 1(2,3) by (simp add: e or_push_bit_add)
  next
    case False
    have e: "enc_nat n = char_of (n mod 128 + 128) # enc_nat (n div 128)" using False by (simp add: enc_nat.simps [of n])
    have c: "of_char (char_of (n mod 128 + 128) :: char) = n mod 128 + 128" by (simp add: of_char_mod)
    have acc: "word_of_nat a OR push_bit (7 * i) (word_of_nat ((n mod 128 + 128) AND 127))
               = (word_of_nat (a + (n mod 128) * 2 ^ (7 * i)) :: 64 word)"
      using 1(3) by (simp add: nat_and_127 or_push_bit_add)
    have a': "a + (n mod 128) * 2 ^ (7 * i) < 2 ^ (7 * Suc i)"
      using varint_step_arith(1) [OF 1(3), of n] by (simp add: add.commute)
    have "Suc i + length (enc_nat (n div 128)) \<le> 9" using 1(2) e by simp
    then have IH: "uvarint_loop (enc_nat (n div 128) @ r) (Suc i) (word_of_nat (a + (n mod 128) * 2 ^ (7 * i))) =
          (word_of_nat (a + (n mod 128) * 2 ^ (7 * i) + (n div 128) * 2 ^ (7 * Suc i)),
           int (Suc i + length (enc_nat (n div 128))))"
      using 1(1) [OF False _ a'] by simp
    have s: "a + (n mod 128) * 2 ^ (7 * i) + (n div 128) * 2 ^ (7 * Suc i) = a + n * 2 ^ (7 * i)"
      using varint_step_arith(2) [OF 1(3), of n] by (simp add: add.commute)
    have len: "Suc i + length (enc_nat (n div 128)) = i + length (enc_nat n)" by (simp add: e)
    have step: "uvarint_loop (enc_nat n @ r) i (word_of_nat a) =
                uvarint_loop (enc_nat (n div 128) @ r) (Suc i)
                  (word_of_nat a OR push_bit (7 * i) (word_of_nat ((n mod 128 + 128) AND 127)))"
      using 1(2) by (simp add: e c Let_def)
    show ?thesis unfolding step acc using IH [unfolded s len] .
  qed
qed

lemma decoded_len_enc:
  assumes "n \<le> 0xffffffff"
  shows "decoded_len (enc_varint (word_of_nat n) @ r) = Inr (n, length (enc_varint (word_of_nat n)))"
proof -
  have n64: "n < 2 ^ 64" using assms by simp
  have e: "enc_varint (word_of_nat n) = enc_nat n"
    using n64 by (simp add: enc_varint_nat unsigned_of_nat take_bit_nat_eq_self)
  have "n < 2 ^ (7 * 5)" using assms by simp
  then have l: "length (enc_nat n) \<le> 5" by (rule enc_nat_length) simp
  have u: "uvarint_loop (enc_nat n @ r) 0 0 = (word_of_nat n, int (length (enc_nat n)))"
    using uvarint_enc_nat [of 0 n 0 r] l by simp
  have ne: "0 < length (enc_nat n)" by (simp add: enc_nat.simps [of n])
  have un: "unat (word_of_nat n :: 64 word) = n" using n64 by (simp add: unsigned_of_nat take_bit_nat_eq_self)
  then have "\<not> (0xffffffff :: 64 word) < word_of_nat n" using assms by (simp add: word_less_nat_alt)
  then show ?thesis using u ne e un by (simp add: decoded_len_def)
qed

lemma literal_blocks_ok: "length p \<le> 65536 \<Longrightarrow> p \<noteq> [] \<Longrightarrow> match_ok literal_blocks p"
  by (simp add: match_ok_def literal_blocks_def)

lemma snappy_Encode_small:
  "length src < 2 ^ 31 \<Longrightarrow> snappy_Encode m src = Inr (enc_varint (word_of_nat (length src)) @ encode_blocks m src)"
  by (simp add: snappy_Encode_def)

subsection \<open>Properties\<close>

text \<open>
  C38: \<open>Decode\<close> inverts \<open>Encode\<close>: whatever elements the match finder of
  \<open>encodeBlock\<close> chooses within its contract, the block format written by
  \<open>Encode\<close> (the length header, blocks of 64 KiB, \<open>emitLiteral\<close> and
  \<open>emitCopy\<close>) is read back by \<open>Decode\<close> as the original bytes.
\<close>

theorem snappy_roundtrip:
  assumes "\<And>p. 17 \<le> length p \<Longrightarrow> length p \<le> 65536 \<Longrightarrow> match_ok m p"
    and "snappy_Encode m src = Inr enc"
  shows "snappy_Decode enc = Inr src"
proof -
  have small: "length src \<le> 0xffffffff" and enc: "enc = enc_varint (word_of_nat (length src)) @ encode_blocks m src"
    using assms(2) by (auto simp: snappy_Encode_def split: if_splits)
  have h: "decoded_len enc = Inr (length src, length (enc_varint (word_of_nat (length src))))"
    using decoded_len_enc [OF small] by (simp add: enc)
  have "decode_loop (length src) (encode_blocks m src) 0 [] =
        decode_loop (length src) (encode_blocks m src) (length (encode_blocks m src)) src"
    using decode_blocks [where q = "[]" and r = "[]" and pre = "[]" and dlen = "length src", OF assms(1)] by simp
  then show ?thesis using h by (simp add: snappy_Decode_def enc decode_loop_end)
qed

theorem snappy_roundtrip_witness:
  "snappy_Encode literal_blocks ''remote-read response bytes'' =
     Inr (CHR 0x1A # CHR 0x64 # ''remote-read response bytes'') \<and>
   snappy_Decode (CHR 0x1A # CHR 0x64 # ''remote-read response bytes'') = Inr ''remote-read response bytes''"
proof -
  have e: "snappy_Encode literal_blocks ''remote-read response bytes'' =
     Inr (CHR 0x1A # CHR 0x64 # ''remote-read response bytes'')"
    by code_simp
  have ok: "match_ok literal_blocks p" if "17 \<le> length p" "length p \<le> 65536" for p
    using that by (intro literal_blocks_ok) auto
  show ?thesis using snappy_roundtrip [OF ok e] e by blast
qed

end
