(* ===== verification/Bootstrap.thy ===== *)
theory Bootstrap
  imports Region Handler
begin

text \<open>
  The start of the process, \<open>main\<close> in src/main.go (lines 137--208), around
  the parts Region and Handler model: the logger (\<open>promlog\<close> at level
  \<open>info\<close>, lines 143--145, a go-kit level filter), the routes of
  \<open>http.DefaultServeMux\<close> that the server of line 153 uses since it has no
  handler of its own (the five \<open>/debug/pprof/\<close> routes registered by the
  blank import of \<open>net/http/pprof\<close>, line 9, then \<open>/metrics\<close> and
  \<open>/read\<close>, lines 154 and 156), and the end of \<open>main\<close>: the
  \<open>Listening on\<close> line, \<open>ListenAndServe\<close> and the logging of its error
  (lines 204--207). \<open>ListenAndServe\<close> is a capability, a function of the
  address and of the handler it serves with, whose result is the error it
  returns. The mux is modelled by its \<open>match\<close>: an exact pattern, else the
  longest pattern ending in a slash that prefixes the path; path cleaning and
  the redirects of \<open>ServeMux.Handler\<close> are not modelled.
\<close>

subsection \<open>Logging\<close>

datatype log_level = LevelDebug | LevelInfo | LevelWarn | LevelError

fun level_rank :: "log_level \<Rightarrow> nat" where
  "level_rank LevelDebug = 0"
| "level_rank LevelInfo = 1"
| "level_rank LevelWarn = 2"
| "level_rank LevelError = 3"

text \<open>Levels are ordered by severity, the order the level filter compares them in.\<close>

instantiation log_level :: linorder
begin

definition less_eq_log_level :: "log_level \<Rightarrow> log_level \<Rightarrow> bool" where
  "less_eq_log_level a b \<longleftrightarrow> level_rank a \<le> level_rank b"

definition less_log_level :: "log_level \<Rightarrow> log_level \<Rightarrow> bool" where
  "less_log_level a b \<longleftrightarrow> level_rank a < level_rank b"

instance
proof
  have inj: "level_rank a = level_rank b \<Longrightarrow> a = b" for a b
    by (cases a; cases b) simp_all
  fix x y z :: log_level
  show "x < y \<longleftrightarrow> x \<le> y \<and> \<not> y \<le> x" by (auto simp: less_eq_log_level_def less_log_level_def)
  show "x \<le> x" by (simp add: less_eq_log_level_def)
  show "x \<le> y \<Longrightarrow> y \<le> z \<Longrightarrow> x \<le> z" by (simp add: less_eq_log_level_def)
  show "x \<le> y \<Longrightarrow> y \<le> x \<Longrightarrow> x = y" using inj by (simp add: less_eq_log_level_def)
  show "x \<le> y \<or> y \<le> x" by (auto simp: less_eq_log_level_def)
qed

end

record logger =
  lg_allowed :: log_level
  lg_lines :: "(log_level \<times> (string \<times> string) list) list"

text \<open>\<open>logLevel := promlog.AllowedLevel{}; logLevel.Set("info")\<close>\<close>

definition main_log_level :: log_level where
  "main_log_level = LevelInfo"

text \<open>\<open>promlog.New(logLevel)\<close>: a logger that keeps the lines at or above the level.\<close>

definition promlog_new :: "log_level \<Rightarrow> logger" where
  "promlog_new l = \<lparr>lg_allowed = l, lg_lines = []\<rparr>"

text \<open>\<open>level.X(logger).Log(k, v, ...)\<close>: the line is written when the filter allows its level.\<close>

definition log_at :: "log_level \<Rightarrow> (string \<times> string) list \<Rightarrow> logger \<Rightarrow> logger" where
  "log_at lv kvs lg = (if lg_allowed lg \<le> lv then lg\<lparr>lg_lines := lg_lines lg @ [(lv, kvs)]\<rparr> else lg)"

subsection \<open>Routes\<close>

datatype route = RoutePprof string | RouteMetrics | RouteRead

text \<open>\<open>import _ "net/http/pprof"\<close>: its \<open>init\<close> registers five handlers on \<open>DefaultServeMux\<close>.\<close>

definition pprof_routes :: "(string \<times> route) list" where
  "pprof_routes =
     [(''/debug/pprof/'', RoutePprof ''Index''), (''/debug/pprof/cmdline'', RoutePprof ''Cmdline''),
      (''/debug/pprof/profile'', RoutePprof ''Profile''), (''/debug/pprof/symbol'', RoutePprof ''Symbol''),
      (''/debug/pprof/trace'', RoutePprof ''Trace'')]"

text \<open>\<open>http.Handle("/metrics", prometheus.Handler())\<close> and \<open>http.HandleFunc("/read", ...)\<close>.\<close>

definition main_routes :: "(string \<times> route) list" where
  "main_routes = pprof_routes @ [(''/metrics'', RouteMetrics), (''/read'', RouteRead)]"

text \<open>
  \<open>ServeMux.match\<close>: the handler of the pattern equal to the path, else of
  the longest pattern ending in \<open>/\<close> that is a prefix of the path.
\<close>

definition mux_match :: "(string \<times> route) list \<Rightarrow> string \<Rightarrow> route option" where
  "mux_match routes path =
     (case map_of routes path of
        Some r \<Rightarrow> Some r
      | None \<Rightarrow>
          (case sort_key (\<lambda>e. length (fst e))
                  (filter (\<lambda>e. fst e \<noteq> [] \<and> last (fst e) = CHR ''/'' \<and> take (length (fst e)) path = fst e) routes) of
             [] \<Rightarrow> None
           | es \<Rightarrow> Some (snd (last es))))"

text \<open>What a request to the server becomes: the \<open>/read\<close> handler, another route, or 404.\<close>

datatype served = ServedRead "conn \<times> invocation list" | ServedOther route | NotFound

text \<open>
  The server of line 153 with \<open>DefaultServeMux\<close>: the \<open>/read\<close> closure runs
  with the region \<open>main\<close> resolved; it does not look at the method.
\<close>

definition main_handler :: "server \<Rightarrow> string \<Rightarrow> string \<Rightarrow> string \<Rightarrow> go_error + bytes \<Rightarrow> conn \<Rightarrow> served" where
  "main_handler srv region meth path body w =
     (case mux_match main_routes path of
        None \<Rightarrow> NotFound
      | Some RouteRead \<Rightarrow> ServedRead (serve_read srv region body w)
      | Some r \<Rightarrow> ServedOther r)"

subsection \<open>main\<close>

datatype main_exit = MainPanic string | MainReturn

record main_trace =
  mt_log :: "(log_level \<times> (string \<times> string) list) list"
  mt_listen :: "string option"
  mt_exit :: main_exit

type_synonym listener =
  "string \<Rightarrow> (string \<Rightarrow> string \<Rightarrow> go_error + bytes \<Rightarrow> conn \<Rightarrow> served) \<Rightarrow> go_error option"

text \<open>
  \<open>main\<close>: the configuration, the logger, the region (an error is logged and
  panics), then the log line, \<open>srv.ListenAndServe()\<close> on the configured
  address with the mux, and the logging of the error it returns; \<open>main\<close>
  then returns.
\<close>

definition main_run :: "string option \<Rightarrow> metadata_service \<Rightarrow> environ \<Rightarrow> server \<Rightarrow> listener \<Rightarrow> main_trace" where
  "main_run flag md env srv listen =
     (let cfg = main_config flag; logger = promlog_new main_log_level
      in case main_region md env of
           Inl p \<Rightarrow>
             \<lparr>mt_log = lg_lines (log_at LevelError [(''err'', error_text p)] logger),
              mt_listen = None, mt_exit = MainPanic (error_text p)\<rparr>
         | Inr region \<Rightarrow>
             let logger1 = log_at LevelInfo [(''msg'', listen_message cfg)] logger
             in case listen (listenAddr cfg) (main_handler srv region) of
                  None \<Rightarrow> \<lparr>mt_log = lg_lines logger1, mt_listen = Some (listenAddr cfg), mt_exit = MainReturn\<rparr>
                | Some err \<Rightarrow>
                    \<lparr>mt_log = lg_lines (log_at LevelError [(''err'', error_text err)] logger1),
                     mt_listen = Some (listenAddr cfg), mt_exit = MainReturn\<rparr>)"

subsection \<open>Lemmas\<close>

text \<open>The logger of \<open>main\<close> drops debug lines and keeps the others.\<close>

lemma main_logger_filter:
  "log_at lv kvs (promlog_new main_log_level) =
     (if lv = LevelDebug then promlog_new main_log_level
      else \<lparr>lg_allowed = LevelInfo, lg_lines = [(lv, kvs)]\<rparr>)"
  by (cases lv) (simp_all add: log_at_def promlog_new_def main_log_level_def less_eq_log_level_def)

lemma main_run_region_error:
  "GetDefaultRegion md env = Inl err \<Longrightarrow>
   main_run flag md env srv listen =
     \<lparr>mt_log = [(LevelError, [(''err'', error_text err)])], mt_listen = None,
      mt_exit = MainPanic (error_text err)\<rparr>"
  by (simp add: main_run_def main_region_def main_logger_filter Let_def)

lemma pprof_prefix_match:
  "\<exists>name. mux_match main_routes (''/debug/pprof/'' @ sfx) = Some (RoutePprof name)"
proof (cases "map_of main_routes (''/debug/pprof/'' @ sfx)")
  case None
  have "filter (\<lambda>e. fst e \<noteq> [] \<and> last (fst e) = CHR ''/'' \<and>
          take (length (fst e)) (''/debug/pprof/'' @ sfx) = fst e) main_routes =
        [(''/debug/pprof/'', RoutePprof ''Index'')]"
    by (simp add: main_routes_def pprof_routes_def)
  then show ?thesis using None by (simp add: mux_match_def)
next
  case (Some r)
  then have "(''/debug/pprof/'' @ sfx, r) \<in> set main_routes" by (rule map_of_SomeD)
  then have "\<exists>name. r = RoutePprof name" by (auto simp: main_routes_def pprof_routes_def)
  then show ?thesis using Some by (auto simp: mux_match_def)
qed

subsection \<open>Properties\<close>

text \<open>
  C39: when \<open>ListenAndServe\<close> returns its error (the address is in use,
  say), \<open>main\<close> logs it after the \<open>Listening on\<close> line and returns, so
  the process ends with exit status 0 as after a normal shutdown; the
  listener ran on the configured address with the mux whose \<open>/read\<close>
  route has the resolved region.
\<close>

theorem main_run_listen_error:
  assumes "GetDefaultRegion md env = Inr region"
    and "listen (listenAddr (main_config flag)) (main_handler srv region) = Some err"
  shows "main_run flag md env srv listen =
     \<lparr>mt_log = [(LevelInfo, [(''msg'', ''Listening on '' @ listenAddr (main_config flag))]),
               (LevelError, [(''err'', error_text err)])],
      mt_listen = Some (listenAddr (main_config flag)), mt_exit = MainReturn\<rparr>"
  using assms
  by (simp add: main_run_def main_region_def log_at_def promlog_new_def main_log_level_def
      less_eq_log_level_def listen_message_def Let_def)

theorem main_run_listen_error_witness:
  "main_run None \<lparr>md_available = False, md_region = Inl (GoErr ''unused'')\<rparr> Map.empty
     (scenario_server scenario_matchers 200)
     (\<lambda>_ _. Some (GoErr ''listen tcp :9461: bind: address already in use'')) =
   \<lparr>mt_log = [(LevelInfo, [(''msg'', ''Listening on :9461'')]),
             (LevelError, [(''err'', ''listen tcp :9461: bind: address already in use'')])],
    mt_listen = Some '':9461'', mt_exit = MainReturn\<rparr>"
proof -
  have r: "GetDefaultRegion \<lparr>md_available = False, md_region = Inl (GoErr ''unused'')\<rparr> Map.empty = Inr ''us-east-1''"
    by (simp add: GetDefaultRegion_def getenv_def default_region_def)
  have l: "(\<lambda>_ _. Some (GoErr ''listen tcp :9461: bind: address already in use''))
      (listenAddr (main_config None))
      (main_handler (scenario_server scenario_matchers 200) ''us-east-1'') =
    Some (GoErr ''listen tcp :9461: bind: address already in use'')"
    by simp
  show ?thesis using main_run_listen_error [OF r l] by (simp add: main_config_def)
qed

text \<open>
  C40: the server answers more than the spec's two endpoints: every path
  under \<open>/debug/pprof/\<close> reaches a profiling handler of
  \<open>net/http/pprof\<close>; \<open>/read\<close> runs the handler whatever the method;
  \<open>/metrics\<close> is the metrics handler and any other path is not found.
\<close>

theorem main_routes_served:
  "(\<forall>sfx. \<exists>name. mux_match main_routes (''/debug/pprof/'' @ sfx) = Some (RoutePprof name)) \<and>
   main_handler srv region meth ''/read'' body w = ServedRead (serve_read srv region body w) \<and>
   mux_match main_routes ''/metrics'' = Some RouteMetrics \<and>
   mux_match main_routes ''/'' = None"
  using pprof_prefix_match
  by (simp add: main_handler_def mux_match_def main_routes_def pprof_routes_def)

end
