(* ===== verification/Spec2Isabelle.thy ===== *)
theory Spec2Isabelle
  imports HandlerSM Region JsonDecode Prompb Snappy Bootstrap
begin

text \<open>
  \<^bold>\<open>A verification library for aws_lambda_read_adapter.\<close>

  The program (src/main.go, one Go file) is a Prometheus remote-read endpoint
  that forwards one query to an AWS Lambda function and returns its reply as
  prompb time series. Its parts and how they interact:
  \<^item> the \<open>/read\<close> handler (\<open>main\<close>, lines 156--202) reads the body,
    snappy-decodes and protobuf-unmarshals it, requires exactly one query,
    calls \<open>runQuery\<close>, marshals and compresses the reply, and maps every
    failure to an HTTP status through \<open>http.Error\<close>;
  \<^item> \<open>runQuery\<close> (lines 37--113) converts the query's millisecond bounds to
    \<open>time.Time\<close> and RFC3339 strings, extracts the parameters from the label
    matchers, builds the JSON payload, invokes the Lambda function, decodes
    its JSON reply and maps it to time series;
  \<^item> \<open>GetDefaultRegion\<close> (lines 115--135) and the rest of \<open>main\<close> (flags,
    logging, the routes of \<open>http.DefaultServeMux\<close> including those of the
    blank import of \<open>net/http/pprof\<close>, \<open>ListenAndServe\<close>) set the
    process up;
  \<^item> the libraries on the wire: snappy (block format) around protobuf (the
    code gogo/protobuf generates for prompb).

  \<^bold>\<open>Theories.\<close>
  \<^item> \<open>Prelude\<close>: Go's machine types (\<open>int64\<close> as \<open>64 word\<close>, strings and
    byte slices as \<open>string\<close>), truncating division (\<open>go_div\<close>, \<open>go_mod\<close>),
    errors and panics as the sum \<open>go_error + 'a\<close>, the last-write-wins scan
    \<open>last_where\<close> and the fail-fast loop \<open>map_or_fail\<close>.
  \<^item> \<open>Extractor\<close>: prompb \<open>Query\<close> and \<open>LabelMatcher\<close>; the matcher loop
    (\<open>scan_matcher\<close>, \<open>scan_matchers\<close>) and the function-name guard
    (\<open>extract_params\<close>), lines 47--67, proved equal to the reference
    \<open>params_spec\<close> (last matcher with each name wins).
  \<^item> \<open>GoTime\<close>: \<open>time.Unix\<close> with its nanosecond normalisation
    (\<open>time_unix\<close>), the conversion of lines 44--45 (\<open>query_time\<close>), and
    \<open>Format(time.RFC3339)\<close> (\<open>rfc3339\<close>) over a proleptic Gregorian calendar
    (\<open>civil_from_days\<close>, with \<open>days_from_civil\<close> as its inverse).
  \<^item> \<open>Float64\<close>: \<open>float64(int)\<close> as IEEE-754 round-to-nearest-even on bit
    patterns (\<open>float64_of_int\<close>) and the value of a bit pattern (\<open>float64_val\<close>).
  \<^item> \<open>Mapper\<close>: \<open>timeSerie\<close>, prompb \<open>Label\<close>, \<open>Sample\<close>, \<open>TimeSeries\<close>; the
    mapping loops of lines 101--111 (\<open>map_datapoint\<close>, \<open>map_serie\<close>,
    \<open>map_result\<close>), including the index panic on short datapoints.
  \<^item> \<open>Payload\<close>: encoding/json's string escaping with UTF-8 decoding
    (\<open>decode_rune\<close>, \<open>json_escape\<close>) and the payload object of lines
    68--77 (\<open>lambda_payload\<close>).
  \<^item> \<open>Utf8\<close>: \<open>utf8.EncodeRune\<close> (\<open>utf8_encode\<close>), the rune sequence of a
    string (\<open>utf8_runes\<close>), validity (\<open>utf8_valid\<close>) and the replacement of
    invalid bytes (\<open>to_valid_utf8\<close>); \<open>decode_rune\<close> and \<open>utf8_encode\<close>
    are shown inverse on valid sequences.
  \<^item> \<open>RunQuery\<close>: \<open>runQuery\<close> itself over a record of capabilities
    (\<open>backend\<close>: the Lambda client, the JSON decoder, the local zone); it
    returns the list of backend invocations it made with its result.
  \<^item> \<open>JsonRead\<close>: the reading side of the payload, modelled from the spec
    and encoding/json: string unquoting (\<open>json_unquote\<close>: escapes,
    \<open>\uXXXX\<close>, surrogate pairs, invalid UTF-8) and a reader of objects and
    strings (\<open>parse_value\<close>, \<open>parse_json\<close>).
  \<^item> \<open>JsonDecode\<close>: \<open>json.Unmarshal\<close> of the Lambda reply (lines 94--99):
    the text reader (\<open>json_parse\<close>: white space, literals, numbers, strings,
    arrays, objects) and the store into \<open>[]timeSerie\<close> (\<open>dec_reply\<close>: keys
    matched up to ASCII case, \<open>null\<close> keeps the value, \<open>strconv.ParseInt\<close> on
    numbers, the first type error kept); \<open>go_unmarshal\<close> is a concrete
    \<open>json_unmarshal\<close> for the \<open>backend\<close> record.
  \<^item> \<open>Handler\<close>: the response writer as explicit state (\<open>conn\<close>,
    \<open>write_header\<close>, \<open>conn_write\<close>, \<open>http_error\<close>), the \<open>server\<close>
    capabilities (snappy and protobuf; \<open>snappy.Encode\<close> may panic), and
    the handler (\<open>serve_read\<close>, \<open>respond\<close>), lines 156--202.
  \<^item> \<open>HandlerSM\<close>: the same handler as an inductive step relation
    \<open>read_step\<close> between its control points (\<open>stage\<close>: Received,
    Decompressed, Decoded, Validated, Invoked, Encoded, and the terminal
    Responded, Failed, Aborted) over a state \<open>hstate\<close> holding the stage, the
    response writer and the backend invocations made so far; \<open>step_fn\<close> is
    its executable form and \<open>outcome\<close> runs it to the end.
  \<^item> \<open>Region\<close>: \<open>GetDefaultRegion\<close> (lines 115--135) over the EC2 metadata
    service and the environment as capabilities, and its use in \<open>main\<close>
    (\<open>main_region\<close>: an error panics before the listener starts); the
    \<open>config\<close> type, the listen address after flag parsing
    (\<open>main_config\<close>) and the start-up log line (\<open>listen_message\<close>).
  \<^item> \<open>Wire\<close>: the protobuf wire format as gogo/protobuf v1.3.2 generates it
    for prompb (the generated code is not in the repository and is modelled
    from the generator): the inlined varint reader (\<open>varint_at\<close>) and
    \<open>encodeVarintTypes\<close> (\<open>enc_varint\<close>), the value readers with their
    length and overflow checks (\<open>read_value\<close>), keys with the \<open>int32\<close>
    field number (\<open>key_field\<close>), \<open>skipTypes\<close> with groups
    (\<open>skip_payload\<close>, \<open>skip_loop\<close>), the field loop of every generated
    \<open>Unmarshal\<close> parameterised by the message's table of known fields
    (\<open>unmarshal_loop\<close>, \<open>field_decl\<close>), its field-wise specification
    \<open>apply_fields\<close>, and the encoders of \<open>MarshalTo\<close> (\<open>enc_field\<close>).
  \<^item> \<open>Prompb\<close>: \<open>Unmarshal\<close> of \<open>ReadRequest\<close>, \<open>Query\<close>,
    \<open>LabelMatcher\<close> (what \<open>proto.Unmarshal\<close> runs at line 170) and
    \<open>MarshalTo\<close> of \<open>ReadResponse\<close>, \<open>QueryResult\<close>, \<open>TimeSeries\<close>,
    \<open>Label\<close>, \<open>Sample\<close> (what \<open>proto.Marshal\<close> runs at line 191), with
    proto3's omission of default values; Prometheus's side of the protocol
    (the request encoders and the response decoders) as the reference of the
    round trips.
  \<^item> \<open>Snappy\<close>: github.com/golang/snappy's block format (not in the
    repository; modelled from its pure-Go sources): \<open>binary.Uvarint\<close>
    (\<open>uvarint_loop\<close>), \<open>decodedLen\<close>, the tag reader
    (\<open>snappy_tag\<close>), the decode loop with its bound checks and both copy
    routines (\<open>decode_loop\<close>, \<open>copy_forward\<close>), \<open>Decode\<close>
    (\<open>snappy_Decode\<close>), \<open>emitLiteral\<close>, \<open>emitCopy\<close>, the block loop
    and \<open>Encode\<close> (\<open>encode_blocks\<close>, \<open>snappy_Encode\<close>), whose
    \<open>encodeBlock\<close> match finder is a parameter under a contract
    (\<open>match_ok\<close>: the elements it chooses are within bounds and reproduce
    the block).
  \<^item> \<open>Bootstrap\<close>: the rest of \<open>main\<close>: the level-filtered logger
    (\<open>log_level\<close>, ordered by an \<open>instantiation\<close> of \<open>linorder\<close>;
    \<open>promlog_new\<close>, \<open>log_at\<close>), the routes of \<open>DefaultServeMux\<close>
    (\<open>pprof_routes\<close>, \<open>main_routes\<close>) and its \<open>match\<close>
    (\<open>mux_match\<close>), the server's dispatch (\<open>main_handler\<close>), and
    \<open>main\<close> as a whole (\<open>main_run\<close>) with \<open>ListenAndServe\<close> as a
    capability.
  \<^item> This theory: the process (\<open>serve_process\<close>: region resolution, then the
    handler), the server with the snappy and protobuf codecs
    (\<open>wire_server\<close>) and the properties that span components.

  \<^bold>\<open>What is proved.\<close> C1--C4 (Handler): the single-query check, the
  function-name check (both 400 without calling the backend), the non-200
  Lambda status answered as an empty success (a defect: \<open>runQuery\<close> returns
  the nil error), and the whole successful path. C5, C11 (Extractor): the
  extractor refines \<open>params_spec\<close>; the matcher type is ignored. C6, C10,
  C28 (Mapper): shape and order of the mapped series; a short datapoint
  panics; every successful mapping has the output type (four labels, one
  sample per datapoint). C7--C9 (GoTime): the RFC3339 bounds are those of
  the exact instant although the \<open>Time\<close> value is wrong for sub-second
  bounds; the calendar round trip. C12 (Float64): the sample value is exact
  up to \<open>2^53\<close>. C13--C15, C29 (HandlerSM): \<open>serve_read\<close> is the unique
  outcome of the state machine; in every reachable state the backend has
  been invoked at most once, with the process region and a non-empty
  function name, never before validation and always before a 500; every run
  ends within six steps, with the client answered. C16--C18 (Region, root):
  without metadata the region is \<open>AWS_REGION\<close> or \<open>us-east-1\<close> and never
  empty; a metadata error is fatal; a process on such a host calls the
  backend only in \<open>us-east-1\<close>. C19--C22 (JsonRead, Utf8): every escaped
  string reads back up to its closing quote as its valid-UTF-8 form; no
  parameter can change the payload's shape; valid UTF-8 survives unchanged,
  so the Lambda function reads the query exactly. C23--C26 (JsonDecode): the
  decoder recovers every contract reply; a fractional value fails the
  request; \<open>null\<close> reads as 0; keys match up to ASCII case. C27 (root): the
  spec's end-to-end scenario from the JSON text of the reply to the time
  series. C30--C35 (Prompb, over the Wire loops): the generated request
  decoder reads Prometheus's request even when queries and envelope carry
  fields of later protocol versions; an over-long key varint fails with
  \<open>integer overflow\<close>; on well-formed fields the decoder refines
  \<open>apply_fields\<close> (known fields assigned in order, unknown ones skipped
  exactly); field numbers alias modulo \<open>2^32\<close>; the marshalled response
  reads back bit for bit except that \<open>-0.0\<close> becomes \<open>+0.0\<close>; a request
  whose length prefix runs past the end fails with \<open>unexpected EOF\<close>. C36,
  C37 (root): the mapper never produces \<open>-0.0\<close>, and with the snappy and
  protobuf codecs the handler decodes Prometheus's compressed single-query
  request and answers 200 with a body that decompresses and decodes to
  exactly \<open>runQuery\<close>'s series. C38 (Snappy): \<open>Decode\<close> inverts
  \<open>Encode\<close> for every match finder within the contract; on the way, the
  built-in \<open>copy\<close> of a non-overlapping copy is shown equal to the byte
  loop (\<open>copy_forward_slice\<close>). C39, C40 (Bootstrap): a failing
  \<open>ListenAndServe\<close> is logged and \<open>main\<close> returns normally (exit status
  0); every path under \<open>/debug/pprof/\<close> is served by net/http/pprof and
  \<open>/read\<close> by the handler whatever the method.

  \<^bold>\<open>Bounds and termination.\<close> No fuel is used for the program: every loop
  is structural (\<open>for range\<close>) and modelled by structural recursion; the
  state machine's runs are bounded by the rank of the stage (\<open>stage_rank\<close>,
  six at a received request), which is the measure of \<open>outcome\<close>; the
  calendar scans, \<open>json_escape\<close>, \<open>utf8_runes\<close> and \<open>json_unquote\<close> are
  \<open>function\<close>s with measures (the remaining days, the months left, the bytes
  left). The two JSON readers of the library models take fuel: each nested
  call consumes one unit and at least one byte, so the length of the text is
  enough (\<open>parse_json\<close> and \<open>json_parse\<close> pass it). int64 arithmetic is
  computed on \<open>int\<close> and wrapped with \<open>wrap64\<close> where Go could overflow; the
  lemmas show no wrap occurs on the conversion of query bounds. The wire
  loops are \<open>function\<close>s: the varint reader's measure is the shift left
  before 64, and the field loop's and \<open>skipTypes\<close>' the bytes left, since
  every iteration reads a key of at least one byte and indices only grow.
  Go's \<open>int\<close> indices are below \<open>2^63\<close> (slice lengths are); an index
  addition passing \<open>2^63\<close> wraps negative in Go, which the generated check
  \<open>iNdEx < 0\<close> rejects and \<open>index_overflows\<close> states; the round trips
  assume messages shorter than \<open>2^63\<close> bytes. snappy's decode loop is a
  \<open>function\<close> on the bytes left (every tag advances the index), \<open>emitCopy\<close>
  on the length left and the block loop on the input left; its length
  header is at most \<open>2^32 - 1\<close>, so \<open>binary.Uvarint\<close> never reaches its
  ten-byte overflow there; the end-to-end property assumes a response below
  \<open>2^31\<close> bytes, well under the size at which \<open>Encode\<close> panics.

  \<^bold>\<open>Not modelled.\<close> The AWS SDK is a library the code calls: its
  Lambda client and the EC2 metadata client are fields of the
  \<open>backend\<close> record and of \<open>metadata_service\<close>, so the lemmas hold for
  every behaviour of them. snappy, protobuf and the JSON decoder are both
  fields of \<open>server\<close>/\<open>backend\<close> and concrete models (Snappy, Wire and
  Prompb, \<open>go_unmarshal\<close>). Of snappy, the hash-table match finder of
  \<open>encodeBlock\<close> is a parameter (any finder within \<open>match_ok\<close>, such as
  \<open>literal_blocks\<close>), and the 32-bit branches are left out (\<open>int\<close> is 64
  bits). Of protobuf, the packed and unpacked \<open>accepted_response_types\<close>
  and the \<open>hints\<close> of later protocol versions are not in the schema; its
  generated code skips them as unknown fields. Of the JSON decoder, the
  Unicode case folding of keys (Kelvin sign, long s), the struct-field path
  in error messages and the exact text of syntax errors. Of \<open>main\<close>, the
  flag package's parsing (its value is the model's input), the format of
  log lines (time stamps, caller), the behaviour of the \<open>/metrics\<close> and
  pprof handlers, \<open>ServeMux\<close>'s path cleaning and redirects, and the
  logging inside the handler (line 183), whose lines the model of
  \<open>serve_read\<close> does not carry. The calendar follows the contract of Go's
  \<open>absDate\<close>, not its 400-year table code. Left open: a printer for
  \<open>reply_json\<close> read back by \<open>json_parse\<close>, and the rounding error bound
  of \<open>float64_of_int\<close> beyond \<open>2^53\<close>.
\<close>

section \<open>The process: start-up and the /read handler\<close>

text \<open>
  \<open>main\<close> resolves the region once (lines 145--152) and every request to
  \<open>/read\<close> (lines 156--202) runs the handler with that region. A failed
  resolution panics before the listener starts, so no request is served.
\<close>

definition serve_process ::
  "metadata_service \<Rightarrow> environ \<Rightarrow> server \<Rightarrow> go_error + bytes \<Rightarrow> conn \<Rightarrow> go_error + conn \<times> invocation list" where
  "serve_process md env srv body w =
     (case main_region md env of
        Inl p \<Rightarrow> Inl p
      | Inr region \<Rightarrow> Inr (serve_read srv region body w))"

text \<open>
  The spec's end-to-end scenario with the backend's reply as JSON text,
  decoded by \<open>go_unmarshal\<close> instead of an abstract decoder.
\<close>

definition scenario_reply :: bytes where
  "scenario_reply = ''[{\"Target\":\"t1\",\"Datapoints\":[[7,1000],[9,4000]]}]''"

definition json_backend :: "bytes \<Rightarrow> backend" where
  "json_backend reply =
     \<lparr>lambda_invoke = \<lambda>_ _ _. Inr \<lparr>StatusCode = 200, FunctionError = None, Payload = reply\<rparr>,
      json_unmarshal = go_unmarshal, zone_offset = 0\<rparr>"

text \<open>
  The server of the scenario with the concrete codecs: snappy's
  \<open>Decode\<close> and \<open>Encode\<close> (with the match finder \<open>m\<close>) around the
  generated protobuf code.
\<close>

definition wire_server :: "(bytes \<Rightarrow> snappy_elem list) \<Rightarrow> bytes \<Rightarrow> server" where
  "wire_server m reply =
     \<lparr>lambda_invoke = \<lambda>_ _ _. Inr \<lparr>StatusCode = 200, FunctionError = None, Payload = reply\<rparr>,
      json_unmarshal = go_unmarshal, zone_offset = 0,
      snappy_decode = snappy_Decode, proto_unmarshal = unmarshal_ReadRequest,
      proto_marshal = proto_marshal_gogo, snappy_encode = snappy_Encode m\<rparr>"

definition scenario_series :: "TimeSeries list" where
  "scenario_series =
     [\<lparr>ts_labels = [\<lparr>label_name = ''__name__'', label_value = ''foo''\<rparr>,
                   \<lparr>label_name = ''functionName'', label_value = ''f1''\<rparr>,
                   \<lparr>label_name = ''target'', label_value = ''t1''\<rparr>,
                   \<lparr>label_name = ''type'', label_value = ''count''\<rparr>],
       ts_samples = [\<lparr>sample_value = float64_of_int 7, sample_timestamp = 1000\<rparr>,
                     \<lparr>sample_value = float64_of_int 9, sample_timestamp = 4000\<rparr>]\<rparr>]"

lemma go_unmarshal_scenario_reply:
  "go_unmarshal scenario_reply = Inr [\<lparr>Target = ''t1'', Datapoints = [[7, 1000], [9, 4000]]\<rparr>]"
  unfolding scenario_reply_def by code_simp

lemma extract_params_scenario:
  "extract_params scenario_matchers =
     Inr \<lparr>metricName = ''foo'', functionName = ''f1'', paramTarget = ''t1'', paramType = ''count''\<rparr>"
  by (simp add: extract_params_cases scenario_matchers_def matcher_value_def last_where_def params_spec_def)

text \<open>Any backend that answers the scenario's reply with status 200 yields its series.\<close>

lemma runQuery_scenario_reply:
  assumes "lambda_invoke env = (\<lambda>_ _ _. Inr \<lparr>StatusCode = 200, FunctionError = None, Payload = scenario_reply\<rparr>)"
    and "json_unmarshal env = go_unmarshal"
  shows "snd (runQuery env region (scenario_query scenario_matchers)) = Inr scenario_series"
  using assms go_unmarshal_scenario_reply extract_params_scenario
  by (simp add: runQuery_def scenario_query_def Let_def map_result_def map_serie_def serie_labels_def
      scenario_series_def)

subsection \<open>Properties spanning components\<close>

text \<open>
  C18: on a host without a metadata service and without \<open>AWS_REGION\<close>, the
  process starts and every request invokes the backend at most once, always
  in \<open>us-east-1\<close>.
\<close>

theorem serve_process_default_region:
  "\<not> md_available md \<Longrightarrow> env ''AWS_REGION'' = None \<Longrightarrow>
   \<exists>w' calls. serve_process md env srv body w = Inr (w', calls) \<and> length calls \<le> 1 \<and>
     (\<forall>c\<in>set calls. inv_region c = ''us-east-1'')"
  using serve_read_calls [of srv "''us-east-1''" body w]
  by (simp add: serve_process_def main_region_def GetDefaultRegion_unavailable default_region_def)
     (metis prod.collapse)

theorem serve_process_default_region_witness:
  "\<exists>w' calls. serve_process \<lparr>md_available = False, md_region = Inl (GoErr ''unused'')\<rparr> Map.empty
       (scenario_server scenario_matchers 200) (Inr ''req'') (fresh_conn True) = Inr (w', calls) \<and>
     length calls \<le> 1 \<and> (\<forall>c\<in>set calls. inv_region c = ''us-east-1'')"
  by (rule serve_process_default_region) simp_all




text \<open>
  C37: the handler with the snappy and protobuf codecs, end to end: a
  request that Prometheus compresses (with any match finder within the
  contract) from its encoding of one query is decompressed and decoded to
  that query, and when \<open>runQuery\<close> returns series the handler answers 200
  with content type \<open>application/x-protobuf\<close> and a body that Prometheus
  decompresses and decodes to a \<open>ReadResponse\<close> holding exactly those
  series.
\<close>

theorem serve_read_wire:
  assumes codec: "snappy_decode srv = snappy_Decode" "proto_unmarshal srv = unmarshal_ReadRequest"
      "proto_marshal srv = proto_marshal_gogo" "snappy_encode srv = snappy_Encode m"
    and finders: "\<And>p. 17 \<le> length p \<Longrightarrow> length p \<le> 65536 \<Longrightarrow> match_ok m p"
      "\<And>p. 17 \<le> length p \<Longrightarrow> length p \<le> 65536 \<Longrightarrow> match_ok m' p"
    and req: "snappy_Encode m' (marshal_ReadRequest \<lparr>Queries = [q]\<rparr>) = Inr body"
      "length (marshal_ReadRequest \<lparr>Queries = [q]\<rparr>) < 2 ^ 63"
    and run: "snd (runQuery srv region q) = Inr ts"
      "length (marshal_ReadResponse \<lparr>Results = [\<lparr>Timeseries = ts\<rparr>]\<rparr>) < 2 ^ 31"
  shows "w_status (fst (serve_read srv region (Inr body) (fresh_conn True))) = Some 200 \<and>
         w_header (fst (serve_read srv region (Inr body) (fresh_conn True))) ''Content-Type'' =
           Some ''application/x-protobuf'' \<and>
         (\<exists>data. snappy_Decode (w_body (fst (serve_read srv region (Inr body) (fresh_conn True)))) = Inr data \<and>
                 unmarshal_ReadResponse data = Inr \<lparr>Results = [\<lparr>Timeseries = ts\<rparr>]\<rparr>)"
proof -
  define R where "R = \<lparr>Results = [\<lparr>Timeseries = ts\<rparr>]\<rparr>"
  have unz: "snappy_decode srv body = Inr (marshal_ReadRequest \<lparr>Queries = [q]\<rparr>)"
    using snappy_roundtrip [OF finders(2) req(1)] codec(1) by simp
  have dec: "proto_unmarshal srv (marshal_ReadRequest \<lparr>Queries = [q]\<rparr>) = Inr \<lparr>Queries = [q]\<rparr>"
    using ReadRequest_roundtrip [OF req(2)] codec(2) by simp
  have sr: "serve_read srv region (Inr body) (fresh_conn True) = respond srv region q (fresh_conn True)"
    using serve_read_decoded [OF unz dec] by simp
  have enc: "proto_marshal srv R = Inr (marshal_ReadResponse R)"
    using codec(3) by (simp add: proto_marshal_gogo_def)
  obtain E where E: "snappy_Encode m (marshal_ReadResponse R) = Inr E"
    using snappy_Encode_small [of "marshal_ReadResponse R" m] run(2) by (simp add: R_def)
  have unE: "snappy_Decode E = Inr (marshal_ReadResponse R)" by (rule snappy_roundtrip [OF finders(1) E])
  have "list_all (\<lambda>t. list_all (\<lambda>x. no_neg_zero (sample_value x)) (ts_samples t)) ts"
    using runQuery_Inr_cases [OF run(1)] map_result_no_neg_zero by auto
  then have nz: "response_no_neg_zero R" by (simp add: R_def response_no_neg_zero_def)
  have "length (marshal_ReadResponse R) < 2 ^ 63" using run(2) by (simp add: R_def)
  then have rt: "unmarshal_ReadResponse (marshal_ReadResponse R) = Inr R"
    using ReadResponse_roundtrip [OF nz] by simp
  have E': "snappy_encode srv (marshal_ReadResponse \<lparr>Results = [\<lparr>Timeseries = ts\<rparr>]\<rparr>) = Inr E"
    using E codec(4) by (simp add: R_def)
  show ?thesis
    using respond_ok [OF run(1) enc [unfolded R_def] E'] unE rt unfolding sr R_def by auto
qed

theorem serve_read_wire_witness:
  "w_status (fst (serve_read (wire_server literal_blocks scenario_reply) ''us-east-1''
      (Inr (enc_varint (word_of_nat (length (marshal_ReadRequest \<lparr>Queries = [scenario_query scenario_matchers]\<rparr>))) @
            encode_blocks literal_blocks (marshal_ReadRequest \<lparr>Queries = [scenario_query scenario_matchers]\<rparr>)))
      (fresh_conn True))) = Some 200 \<and>
   w_header (fst (serve_read (wire_server literal_blocks scenario_reply) ''us-east-1''
      (Inr (enc_varint (word_of_nat (length (marshal_ReadRequest \<lparr>Queries = [scenario_query scenario_matchers]\<rparr>))) @
            encode_blocks literal_blocks (marshal_ReadRequest \<lparr>Queries = [scenario_query scenario_matchers]\<rparr>)))
      (fresh_conn True))) ''Content-Type'' = Some ''application/x-protobuf'' \<and>
   (\<exists>data. snappy_Decode (w_body (fst (serve_read (wire_server literal_blocks scenario_reply) ''us-east-1''
      (Inr (enc_varint (word_of_nat (length (marshal_ReadRequest \<lparr>Queries = [scenario_query scenario_matchers]\<rparr>))) @
            encode_blocks literal_blocks (marshal_ReadRequest \<lparr>Queries = [scenario_query scenario_matchers]\<rparr>)))
      (fresh_conn True)))) = Inr data \<and>
      unmarshal_ReadResponse data = Inr \<lparr>Results = [\<lparr>Timeseries = scenario_series\<rparr>]\<rparr>)"
proof -
  have c: "snappy_decode (wire_server literal_blocks scenario_reply) = snappy_Decode"
    "proto_unmarshal (wire_server literal_blocks scenario_reply) = unmarshal_ReadRequest"
    "proto_marshal (wire_server literal_blocks scenario_reply) = proto_marshal_gogo"
    "snappy_encode (wire_server literal_blocks scenario_reply) = snappy_Encode literal_blocks"
    by (simp_all add: wire_server_def)
  have ok: "match_ok literal_blocks p" if "17 \<le> length p" "length p \<le> 65536" for p
    using that by (intro literal_blocks_ok) auto
  have l0: "length (marshal_ReadRequest \<lparr>Queries = [scenario_query scenario_matchers]\<rparr>) < 2 ^ 31"
    by code_simp
  then have l1: "length (marshal_ReadRequest \<lparr>Queries = [scenario_query scenario_matchers]\<rparr>) < 2 ^ 63"
    by simp
  have b: "snappy_Encode literal_blocks (marshal_ReadRequest \<lparr>Queries = [scenario_query scenario_matchers]\<rparr>) =
      Inr (enc_varint (word_of_nat (length (marshal_ReadRequest \<lparr>Queries = [scenario_query scenario_matchers]\<rparr>))) @
            encode_blocks literal_blocks (marshal_ReadRequest \<lparr>Queries = [scenario_query scenario_matchers]\<rparr>))"
    by (rule snappy_Encode_small [OF l0])
  have r: "snd (runQuery (wire_server literal_blocks scenario_reply) ''us-east-1'' (scenario_query scenario_matchers)) =
      Inr scenario_series"
    by (rule runQuery_scenario_reply) (simp_all add: wire_server_def)
  have l2: "length (marshal_ReadResponse \<lparr>Results = [\<lparr>Timeseries = scenario_series\<rparr>]\<rparr>) < 2 ^ 31"
    by code_simp
  show ?thesis by (rule serve_read_wire [OF c ok ok b l1 r l2])
qed

end
